theory Spec2Isabelle
  imports Complex_Main "HOL-Library.Char_ord" "HOL-Library.List_Lexorder" "HOL-Library.AList"
begin

section \<open>Python values and the builtins the program uses\<close>

text \<open>
  Every value the program handles comes out of \<^verbatim>\<open>json.loads\<close> or out of the
  browser's log, so a value is a JSON value. A Python \<^verbatim>\<open>dict\<close> keeps its items in
  insertion order: it is an association list, whose keys are distinct in every value
  Python can build (\<open>wf_json\<close> below). A character of a \<^verbatim>\<open>str\<close> is a
  \<^typ>\<open>char\<close>.
\<close>

subsection \<open>Floats\<close>

text \<open>
  A \<^verbatim>\<open>float\<close> is an IEEE 754 double: a finite value, which is a rational, the
  negative zero, an infinity or NaN. An operation on finite values gives the exact result
  rounded to the nearest double, ties to the even significand; \<open>round64\<close> is that
  rounding. A double has 53 significant bits, its least exponent is \<open>- 1022\<close>, and a
  result that rounds to \<open>2 ^ 1024\<close> or beyond is an infinity.
\<close>

datatype pyfloat = Fin rat | NegZero | PInf | NInf | NaN

definition pow2 :: "int \<Rightarrow> rat" where
  "pow2 e = (if 0 \<le> e then of_int (2 ^ nat e) else 1 / of_int (2 ^ nat (- e)))"

function bit_length :: "int \<Rightarrow> nat" where
  "bit_length n = (if n \<le> 0 then 0 else Suc (bit_length (n div 2)))"
  by pat_completeness auto
termination
  by (relation "measure nat") auto

declare bit_length.simps [simp del]

text \<open>The exponent \<open>e\<close> with \<open>2 ^ e \<le> a < 2 ^ (e + 1)\<close>, for \<open>a > 0\<close>.\<close>

definition floor_log2 :: "rat \<Rightarrow> int" where
  "floor_log2 a =
     (case quotient_of a of (p, q) \<Rightarrow>
        let e = int (bit_length p) - int (bit_length q)
        in if pow2 e \<le> a then e else e - 1)"

definition round_half_even :: "rat \<Rightarrow> int" where
  "round_half_even x =
     (let n = \<lfloor>x\<rfloor>; d = x - of_int n
      in if d < 1 / 2 then n else if 1 / 2 < d then n + 1 else if even n then n else n + 1)"

definition round64 :: "rat \<Rightarrow> pyfloat" where
  "round64 r =
     (if r = 0 then Fin 0
      else
        let a = \<bar>r\<bar>;
            e = max (floor_log2 a) (- 1022);
            q = pow2 (e - 52);
            v = of_int (round_half_even (a / q)) * q
        in if pow2 1024 \<le> v then (if 0 < r then PInf else NInf)
           else if v = 0 then (if 0 < r then Fin 0 else NegZero)
           else Fin (if 0 < r then v else - v))"

text \<open>\<^verbatim>\<open>x + y\<close> on floats.\<close>

fun float_add :: "pyfloat \<Rightarrow> pyfloat \<Rightarrow> pyfloat" where
  "float_add NaN y = NaN"
| "float_add x NaN = NaN"
| "float_add PInf NInf = NaN"
| "float_add NInf PInf = NaN"
| "float_add PInf y = PInf"
| "float_add x PInf = PInf"
| "float_add NInf y = NInf"
| "float_add x NInf = NInf"
| "float_add NegZero y = y"
| "float_add x NegZero = x"
| "float_add (Fin a) (Fin b) = (if a + b = 0 then Fin 0 else round64 (a + b))"

text \<open>\<^verbatim>\<open>x / 100.0\<close>\<close>

fun div_100 :: "pyfloat \<Rightarrow> pyfloat" where
  "div_100 (Fin a) = round64 (a / 100)"
| "div_100 x = x"

text \<open>\<^verbatim>\<open>bool(x)\<close> of a float: \<^verbatim>\<open>x != 0.0\<close>.\<close>

fun float_truthy :: "pyfloat \<Rightarrow> bool" where
  "float_truthy (Fin a) = (a \<noteq> 0)"
| "float_truthy NegZero = False"
| "float_truthy x = True"

subsection \<open>JSON values\<close>

datatype json =
    JNull
  | JBool bool
  | JInt int
  | JFloat pyfloat
  | JStr string
  | JArr "json list"
  | JObj "(string \<times> json) list"

datatype py_error =
    KeyError | TypeError | ValueError | AttributeError | IndexError
  | OverflowError | JSONDecodeError | WebDriverException

type_synonym 'a result = "py_error + 'a"

definition py_bind :: "'a result \<Rightarrow> ('a \<Rightarrow> 'b result) \<Rightarrow> 'b result" where
  "py_bind m f = (case m of Inl e \<Rightarrow> Inl e | Inr x \<Rightarrow> f x)"

text \<open>\<^verbatim>\<open>try: body  except Exception: handler\<close>\<close>

definition try_except :: "'a result \<Rightarrow> 'a result \<Rightarrow> 'a result" where
  "try_except body handler = (case body of Inl e \<Rightarrow> handler | Inr x \<Rightarrow> Inr x)"

fun is_dict :: "json \<Rightarrow> bool" where
  "is_dict (JObj kvs) = True"
| "is_dict v = False"

fun is_list :: "json \<Rightarrow> bool" where
  "is_list (JArr xs) = True"
| "is_list v = False"

text \<open>\<^verbatim>\<open>bool(v)\<close>: the truth value Python's \<^verbatim>\<open>if\<close>, \<^verbatim>\<open>not\<close> and \<^verbatim>\<open>or\<close> test.\<close>

fun truthy :: "json \<Rightarrow> bool" where
  "truthy JNull = False"
| "truthy (JBool b) = b"
| "truthy (JInt i) = (i \<noteq> 0)"
| "truthy (JFloat x) = float_truthy x"
| "truthy (JStr s) = (s \<noteq> [])"
| "truthy (JArr xs) = (xs \<noteq> [])"
| "truthy (JObj kvs) = (kvs \<noteq> [])"

text \<open>
  \<^verbatim>\<open>a or b\<close>: the right operand is evaluated only when the left one is falsy, and
  an exception raised by the left operand propagates.
\<close>

definition py_or :: "json result \<Rightarrow> json result \<Rightarrow> json result" where
  "py_or a b = py_bind a (\<lambda>x. if truthy x then Inr x else b)"

text \<open>\<^verbatim>\<open>d.get(k, default)\<close> and \<^verbatim>\<open>d.get(k)\<close>: only a dict has the method.\<close>

fun py_get_default :: "json \<Rightarrow> string \<Rightarrow> json \<Rightarrow> json result" where
  "py_get_default (JObj kvs) k d = Inr (case map_of kvs k of None \<Rightarrow> d | Some v \<Rightarrow> v)"
| "py_get_default v k d = Inl AttributeError"

definition py_get :: "json \<Rightarrow> string \<Rightarrow> json result" where
  "py_get v k = py_get_default v k JNull"

text \<open>\<^verbatim>\<open>v[k]\<close> with a string key \<open>k\<close>.\<close>

fun py_item :: "json \<Rightarrow> string \<Rightarrow> json result" where
  "py_item (JObj kvs) k = (case map_of kvs k of None \<Rightarrow> Inl KeyError | Some v \<Rightarrow> Inr v)"
| "py_item v k = Inl TypeError"

text \<open>\<^verbatim>\<open>xs[i]\<close> for a list and an index \<open>i \<ge> 0\<close>.\<close>

definition list_index :: "json list \<Rightarrow> nat \<Rightarrow> json result" where
  "list_index xs i = (if i < length xs then Inr (xs ! i) else Inl IndexError)"

text \<open>
  \<^verbatim>\<open>json.loads(v)\<close>. The parser itself is the standard library's: it is the parameter
  \<open>loads\<close>, which gives the parsed value of a text, or \<open>None\<close> where the parser raises.
\<close>

fun py_loads :: "(string \<Rightarrow> json option) \<Rightarrow> json \<Rightarrow> json result" where
  "py_loads loads (JStr s) = (case loads s of None \<Rightarrow> Inl JSONDecodeError | Some v \<Rightarrow> Inr v)"
| "py_loads loads v = Inl TypeError"

section \<open>Socket.IO decoder\<close>

definition startswith :: "string \<Rightarrow> string \<Rightarrow> bool" where
  "startswith s p = (take (length p) s = p)"

definition parse_socketio ::
  "(string \<Rightarrow> json option) \<Rightarrow> json \<Rightarrow> (json \<times> json list) option result" where
  "parse_socketio loads payload =
     (case payload of
        JStr s \<Rightarrow>
          if \<not> startswith s ''42'' then Inr None
          else try_except
                 (py_bind (py_loads loads (JStr (drop 2 s))) (\<lambda>arr.
                    case arr of
                      JArr xs \<Rightarrow>
                        if xs \<noteq> []
                        then py_bind (list_index xs 0) (\<lambda>x. Inr (Some (x, drop 1 xs)))
                        else Inr None
                    | _ \<Rightarrow> Inr None))
                 (Inr None)
      | _ \<Rightarrow> Inr None)"

section \<open>Inventory candidate locator\<close>

text \<open>The list \<^verbatim>\<open>cands\<close> as it stands when the loop over it starts.\<close>

definition inventory_cands :: "json \<Rightarrow> json list result" where
  "inventory_cands first =
     py_bind
       (if is_dict first
        then py_bind (py_get first ''data'') (\<lambda>d.
             py_bind
               (if is_dict d
                then py_bind (py_item first ''data'') (\<lambda>d1.
                     py_bind (py_get d1 ''inventory'') (\<lambda>i. Inr (is_list i)))
                else Inr False) (\<lambda>nested.
             py_bind
               (if nested
                then py_bind (py_item first ''data'') (\<lambda>d2.
                     py_bind (py_item d2 ''inventory'') (\<lambda>c. Inr [c]))
                else Inr []) (\<lambda>cands1.
             py_bind (py_get first ''inventory'') (\<lambda>i2.
               if is_list i2
               then py_bind (py_item first ''inventory'') (\<lambda>c. Inr (cands1 @ [c]))
               else Inr cands1))))
        else Inr [])
       (\<lambda>cands2. if is_list first then Inr (cands2 @ [first]) else Inr cands2)"

text \<open>\<^verbatim>\<open>for c in cands: if isinstance(c, list): return c\<close>, then \<^verbatim>\<open>return []\<close>.\<close>

fun first_list :: "json list \<Rightarrow> json list" where
  "first_list [] = []"
| "first_list (JArr xs # cs) = xs"
| "first_list (c # cs) = first_list cs"

definition try_extract_inventory :: "json list \<Rightarrow> json list result" where
  "try_extract_inventory args =
     (if args = [] then Inr []
      else py_bind (list_index args 0) (\<lambda>first.
           py_bind (inventory_cands first) (\<lambda>cands. Inr (first_list cands))))"

text \<open>The locator as the specification words it: the three checks in priority order.\<close>

definition nested_inventory :: "(string \<times> json) list \<Rightarrow> json list option" where
  "nested_inventory kvs =
     (case map_of kvs ''data'' of
        Some (JObj d) \<Rightarrow> (case map_of d ''inventory'' of Some (JArr la) \<Rightarrow> Some la | _ \<Rightarrow> None)
      | _ \<Rightarrow> None)"

definition top_inventory :: "(string \<times> json) list \<Rightarrow> json list option" where
  "top_inventory kvs = (case map_of kvs ''inventory'' of Some (JArr lb) \<Rightarrow> Some lb | _ \<Rightarrow> None)"

definition opt_cand :: "json list option \<Rightarrow> json list" where
  "opt_cand c = (case c of None \<Rightarrow> [] | Some xs \<Rightarrow> [JArr xs])"

definition located_inventory :: "json \<Rightarrow> json list" where
  "located_inventory first =
     (case first of
        JObj kvs \<Rightarrow>
          (case nested_inventory kvs of
             Some la \<Rightarrow> la
           | None \<Rightarrow> (case top_inventory kvs of Some lb \<Rightarrow> lb | None \<Rightarrow> []))
      | JArr xs \<Rightarrow> xs
      | _ \<Rightarrow> [])"

section \<open>Python equality\<close>

text \<open>
  \<^verbatim>\<open>a == b\<close> on JSON values compares numbers by value whatever their type
  (\<^verbatim>\<open>1 == 1.0 == True\<close>), lists element by element and dicts as sets of items.
  \<open>canon\<close> maps a value to a representative of its class: a number becomes the
  rational it denotes, without rounding, as Python compares an \<^verbatim>\<open>int\<close> with a
  \<^verbatim>\<open>float\<close> exactly, and the items of a dict are put in key order. The NaN of a
  value that \<^verbatim>\<open>json.loads\<close> built is one object, the constant of the decoder, and
  the comparisons of tuples, lists and dicts take an object to be equal to itself.
\<close>

fun canon :: "json \<Rightarrow> json" where
  "canon (JBool b) = JFloat (Fin (if b then 1 else 0))"
| "canon (JInt i) = JFloat (Fin (of_int i))"
| "canon (JFloat NegZero) = JFloat (Fin 0)"
| "canon (JArr xs) = JArr (map canon xs)"
| "canon (JObj kvs) = JObj (sort_key fst (map (\<lambda>(k, v). (k, canon v)) kvs))"
| "canon v = v"

definition py_eq :: "json \<Rightarrow> json \<Rightarrow> bool" where
  "py_eq a b = (canon a = canon b)"

section \<open>Inventory aggregator\<close>

text \<open>
  \<^verbatim>\<open>float(v)\<close> and \<^verbatim>\<open>int(v)\<close>. Reading a number out of a string is the
  interpreter's: \<open>sf\<close> and \<open>si\<close> give the number a string denotes, or \<open>None\<close> where
  the builtin raises \<^verbatim>\<open>ValueError\<close>. An integer is rounded to the nearest double,
  and has no float when that is out of range; a float is truncated towards zero, and an
  infinity or NaN has no integer.
\<close>

fun py_float :: "(string \<Rightarrow> pyfloat option) \<Rightarrow> json \<Rightarrow> pyfloat result" where
  "py_float sf (JInt i) =
     (case round64 (of_int i) of
        PInf \<Rightarrow> Inl OverflowError
      | NInf \<Rightarrow> Inl OverflowError
      | x \<Rightarrow> Inr x)"
| "py_float sf (JFloat x) = Inr x"
| "py_float sf (JBool b) = Inr (Fin (if b then 1 else 0))"
| "py_float sf (JStr s) = (case sf s of None \<Rightarrow> Inl ValueError | Some x \<Rightarrow> Inr x)"
| "py_float sf v = Inl TypeError"

fun float_to_int :: "pyfloat \<Rightarrow> int result" where
  "float_to_int (Fin a) = Inr (if 0 \<le> a then \<lfloor>a\<rfloor> else \<lceil>a\<rceil>)"
| "float_to_int NegZero = Inr 0"
| "float_to_int PInf = Inl OverflowError"
| "float_to_int NInf = Inl OverflowError"
| "float_to_int NaN = Inl ValueError"

fun py_int :: "(string \<Rightarrow> int option) \<Rightarrow> json \<Rightarrow> int result" where
  "py_int si (JInt i) = Inr i"
| "py_int si (JFloat x) = float_to_int x"
| "py_int si (JBool b) = Inr (if b then 1 else 0)"
| "py_int si (JStr s) = (case si s of None \<Rightarrow> Inl ValueError | Some i \<Rightarrow> Inr i)"
| "py_int si v = Inl TypeError"

text \<open>The three fields of a record, as the right-hand sides of the loop body compute them.\<close>

definition item_name :: "json \<Rightarrow> json result" where
  "item_name it =
     py_or (py_or (py_or (py_get it ''name'') (py_get it ''market_hash_name''))
                  (py_get it ''title''))
           (Inr (JStr ''UNKNOWN''))"

definition item_cents :: "json \<Rightarrow> json result" where
  "item_cents it = py_or (py_or (py_get it ''price'') (py_get it ''price_cents'')) (Inr (JInt 0))"

definition item_price :: "(string \<Rightarrow> pyfloat option) \<Rightarrow> json \<Rightarrow> pyfloat result" where
  "item_price sf cents =
     try_except (py_bind (py_float sf cents) (\<lambda>f. Inr (div_100 f))) (Inr (Fin 0))"

definition item_qty :: "(string \<Rightarrow> int option) \<Rightarrow> json \<Rightarrow> int result" where
  "item_qty si it =
     py_bind (py_or (py_or (py_get it ''amount'') (py_get it ''quantity'')) (Inr (JInt 1)))
       (py_int si)"

text \<open>
  The aggregate maps a name to its two counters. Its keys are compared with
  \<^verbatim>\<open>==\<close>, and a list or a dict cannot be a key.
\<close>

record agg_entry =
  amount :: int
  total_price :: pyfloat

type_synonym aggregate = "(json \<times> agg_entry) list"

fun hashable :: "json \<Rightarrow> bool" where
  "hashable (JArr xs) = False"
| "hashable (JObj kvs) = False"
| "hashable v = True"

text \<open>
  \<^verbatim>\<open>rec = agg.setdefault(name, {"amount": 0, "total_price": 0.0})\<close> followed by the
  two \<^verbatim>\<open>+=\<close> on \<^verbatim>\<open>rec\<close>.
\<close>

fun bump :: "aggregate \<Rightarrow> json \<Rightarrow> int \<Rightarrow> pyfloat \<Rightarrow> aggregate" where
  "bump [] name qty price =
     [(name, \<lparr>amount = 0 + qty, total_price = float_add (Fin 0) price\<rparr>)]"
| "bump ((k, r) # agg) name qty price =
     (if py_eq k name
      then (k, r\<lparr>amount := amount r + qty,
                total_price := float_add (total_price r) price\<rparr>) # agg
      else (k, r) # bump agg name qty price)"

definition item_fields ::
  "(string \<Rightarrow> pyfloat option) \<Rightarrow> (string \<Rightarrow> int option) \<Rightarrow> json \<Rightarrow> (json \<times> int \<times> pyfloat) result" where
  "item_fields sf si it =
     py_bind (item_name it) (\<lambda>name.
     py_bind (item_cents it) (\<lambda>cents.
     py_bind (item_price sf cents) (\<lambda>price.
     py_bind (item_qty si it) (\<lambda>qty.
       if hashable name then Inr (name, qty, price) else Inl TypeError))))"

text \<open>
  The loop of \<^verbatim>\<open>merge_inventory\<close>. The source updates \<^verbatim>\<open>agg\<close> in place and
  returns it; an exception leaves the function, and with it the run, so the aggregate as
  it stands at that moment is not part of the result.
\<close>

fun merge_inventory ::
  "(string \<Rightarrow> pyfloat option) \<Rightarrow> (string \<Rightarrow> int option) \<Rightarrow> aggregate \<Rightarrow> json list \<Rightarrow> aggregate result" where
  "merge_inventory sf si agg [] = Inr agg"
| "merge_inventory sf si agg (it # items) =
     py_bind (item_fields sf si it) (\<lambda>(name, qty, price).
       merge_inventory sf si (bump agg name qty price) items)"

text \<open>
  The resolver as the specification words it, with truth in place of presence: the first
  truthy value among the candidate keys, or the default.
\<close>

fun first_truthy :: "(string \<times> json) list \<Rightarrow> string list \<Rightarrow> json \<Rightarrow> json" where
  "first_truthy kvs [] d = d"
| "first_truthy kvs (k # ks) d =
     (case map_of kvs k of
        None \<Rightarrow> first_truthy kvs ks d
      | Some v \<Rightarrow> if truthy v then v else first_truthy kvs ks d)"

text \<open>\<^verbatim>\<open>agg.get(name)\<close>, and the two counters of a name that may be absent.\<close>

fun agg_lookup :: "aggregate \<Rightarrow> json \<Rightarrow> agg_entry option" where
  "agg_lookup [] name = None"
| "agg_lookup ((k, r) # agg) name = (if py_eq k name then Some r else agg_lookup agg name)"

definition amount_of :: "aggregate \<Rightarrow> json \<Rightarrow> int" where
  "amount_of agg name = (case agg_lookup agg name of None \<Rightarrow> 0 | Some r \<Rightarrow> amount r)"

definition total_of :: "aggregate \<Rightarrow> json \<Rightarrow> pyfloat" where
  "total_of agg name =
     (case agg_lookup agg name of None \<Rightarrow> Fin 0 | Some r \<Rightarrow> total_price r)"

section \<open>Frame extractor\<close>

text \<open>
  \<^verbatim>\<open>json.loads(entry["message"])["message"]\<close>, the body of the inner
  \<^verbatim>\<open>try\<close> of \<^verbatim>\<open>safe_get_perf\<close>.
\<close>

definition entry_message :: "(string \<Rightarrow> json option) \<Rightarrow> json \<Rightarrow> json result" where
  "entry_message loads entry =
     py_bind (py_item entry ''message'') (\<lambda>txt.
     py_bind (py_loads loads txt) (\<lambda>outer. py_item outer ''message''))"

fun perf_loop :: "(string \<Rightarrow> json option) \<Rightarrow> json list \<Rightarrow> json list \<Rightarrow> json list result" where
  "perf_loop loads out [] = Inr out"
| "perf_loop loads out (entry # raw) =
     py_bind
       (try_except (py_bind (entry_message loads entry) (\<lambda>msg. Inr (out @ [msg]))) (Inr out))
       (\<lambda>out'. perf_loop loads out' raw)"

text \<open>
  \<open>get_log\<close> is the outcome of \<^verbatim>\<open>driver.get_log("performance")\<close>: the entries,
  or the exception the driver raised.
\<close>

definition safe_get_perf ::
  "(string \<Rightarrow> json option) \<Rightarrow> json list result \<Rightarrow> json list result" where
  "safe_get_perf loads get_log =
     (case get_log of Inl e \<Rightarrow> Inr [] | Inr raw \<Rightarrow> perf_loop loads [] raw)"

text \<open>An entry as the specification words it: the message of an entry that parses.\<close>

definition parsed_entry :: "(string \<Rightarrow> json option) \<Rightarrow> json \<Rightarrow> json option" where
  "parsed_entry loads entry =
     (case entry of
        JObj kvs \<Rightarrow>
          (case map_of kvs ''message'' of
             Some (JStr txt) \<Rightarrow>
               (case loads txt of
                  Some (JObj outer) \<Rightarrow> map_of outer ''message''
                | _ \<Rightarrow> None)
           | _ \<Rightarrow> None)
      | _ \<Rightarrow> None)"

text \<open>\<^verbatim>\<open>m["params"]["response"]["payloadData"]\<close>\<close>

definition payload_data :: "json \<Rightarrow> json result" where
  "payload_data m =
     py_bind (py_item m ''params'') (\<lambda>p.
     py_bind (py_item p ''response'') (\<lambda>r. py_item r ''payloadData''))"

text \<open>One turn of the loop of \<^verbatim>\<open>iter_ws_frames\<close>: the frame it yields, if any.\<close>

definition ws_frame :: "json \<Rightarrow> (string \<times> json) option result" where
  "ws_frame m =
     py_bind (py_get_default m ''method'' (JStr [])) (\<lambda>method.
       if py_eq method (JStr ''Network.webSocketFrameReceived'')
       then py_bind (payload_data m) (\<lambda>p. Inr (Some (''in'', p)))
       else if py_eq method (JStr ''Network.webSocketFrameSent'')
       then py_bind (payload_data m) (\<lambda>p. Inr (Some (''out'', p)))
       else Inr None)"

text \<open>
  The generator, as the frames it yields and the exception that ends it, if one does:
  the consumer has handled the frames yielded before the exception, and sees none after.
\<close>

fun ws_frames :: "json list \<Rightarrow> (string \<times> json) list \<times> py_error option" where
  "ws_frames [] = ([], None)"
| "ws_frames (m # ms) =
     (case ws_frame m of
        Inl e \<Rightarrow> ([], Some e)
      | Inr None \<Rightarrow> ws_frames ms
      | Inr (Some f) \<Rightarrow> (case ws_frames ms of (fs, e) \<Rightarrow> (f # fs, e)))"

definition iter_ws_frames ::
  "(string \<Rightarrow> json option) \<Rightarrow> json list result \<Rightarrow> (string \<times> json) list \<times> py_error option" where
  "iter_ws_frames loads get_log =
     (case safe_get_perf loads get_log of Inl e \<Rightarrow> ([], Some e) | Inr ms \<Rightarrow> ws_frames ms)"

section \<open>Signatures and the dedup filter\<close>

text \<open>
  \<^verbatim>\<open>json.dumps(v, ensure_ascii=False, sort_keys=True)\<close>. The digits of a float are
  the interpreter's \<^verbatim>\<open>float.__repr__\<close>, the parameter \<open>fr\<close>; the encoder has its
  own words for the infinities and NaN.
\<close>

definition digit_char :: "nat \<Rightarrow> char" where
  "digit_char n = char_of (of_char (CHR ''0'') + n)"

fun nat_repr :: "nat \<Rightarrow> string" where
  "nat_repr n = (if n < 10 then [digit_char n] else nat_repr (n div 10) @ [digit_char (n mod 10)])"

declare nat_repr.simps [simp del]

definition int_repr :: "int \<Rightarrow> string" where
  "int_repr i = (if i < 0 then CHR ''-'' # nat_repr (nat (- i)) else nat_repr (nat i))"

definition hex_char :: "nat \<Rightarrow> char" where
  "hex_char n = (if n < 10 then digit_char n else char_of (of_char (CHR ''a'') + (n - 10)))"

definition escape_char :: "char \<Rightarrow> string" where
  "escape_char c =
     (if c = CHR 0x5C then [CHR 0x5C, CHR 0x5C]
      else if c = CHR 0x22 then [CHR 0x5C, CHR 0x22]
      else if c = CHR 0x08 then [CHR 0x5C, CHR ''b'']
      else if c = CHR 0x0C then [CHR 0x5C, CHR ''f'']
      else if c = CHR 0x0A then [CHR 0x5C, CHR ''n'']
      else if c = CHR 0x0D then [CHR 0x5C, CHR ''r'']
      else if c = CHR 0x09 then [CHR 0x5C, CHR ''t'']
      else if of_char c < (32 :: nat)
      then [CHR 0x5C, CHR ''u'', CHR ''0'', CHR ''0'',
            hex_char (of_char c div 16), hex_char (of_char c mod 16)]
      else [c])"

definition encode_basestring :: "string \<Rightarrow> string" where
  "encode_basestring s = CHR 0x22 # concat (map escape_char s) @ [CHR 0x22]"

fun join :: "string \<Rightarrow> string list \<Rightarrow> string" where
  "join sep [] = []"
| "join sep [x] = x"
| "join sep (x # y # ys) = x @ sep @ join sep (y # ys)"

fun dumps :: "(pyfloat \<Rightarrow> string) \<Rightarrow> json \<Rightarrow> string" where
  "dumps fr JNull = ''null''"
| "dumps fr (JBool b) = (if b then ''true'' else ''false'')"
| "dumps fr (JInt i) = int_repr i"
| "dumps fr (JFloat x) =
     (case x of
        NaN \<Rightarrow> ''NaN''
      | PInf \<Rightarrow> ''Infinity''
      | NInf \<Rightarrow> ''-Infinity''
      | _ \<Rightarrow> fr x)"
| "dumps fr (JStr s) = encode_basestring s"
| "dumps fr (JArr xs) = ''['' @ join '', '' (map (dumps fr) xs) @ '']''"
| "dumps fr (JObj kvs) =
     ''{'' @ join '', '' (map (\<lambda>(k, v). encode_basestring k @ '': '' @ dumps fr v)
                              (sort_key fst kvs)) @ ''}''"

text \<open>
  A signature is the tuple \<^verbatim>\<open>(direction, name, dumps(evt_args))\<close>; two tuples are
  \<^verbatim>\<open>==\<close> when their components are.
\<close>

type_synonym signature = "string \<times> json \<times> string"

definition event_sig :: "(pyfloat \<Rightarrow> string) \<Rightarrow> string \<times> json \<times> json list \<Rightarrow> signature" where
  "event_sig fr ev = (case ev of (direction, name, evt_args) \<Rightarrow>
     (direction, name, dumps fr (JArr evt_args)))"

definition sig_eq :: "signature \<Rightarrow> signature \<Rightarrow> bool" where
  "sig_eq a b = (case a of (d, n, s) \<Rightarrow> case b of (d', n', s') \<Rightarrow> d = d' \<and> py_eq n n' \<and> s = s')"

text \<open>\<^verbatim>\<open>sig in seen\<close>\<close>

definition sig_in :: "signature \<Rightarrow> signature list \<Rightarrow> bool" where
  "sig_in sg seen = list_ex (sig_eq sg) seen"

text \<open>
  \<^verbatim>\<open>deque(maxlen=n).append(x)\<close>: the new item goes to the right end, and the
  leftmost one is dropped when the deque has grown past \<open>n\<close>.
\<close>

definition deque_append :: "nat \<Rightarrow> 'a list \<Rightarrow> 'a \<Rightarrow> 'a list" where
  "deque_append n xs x = (let ys = xs @ [x] in if n < length ys then tl ys else ys)"

definition seen_maxlen :: nat where
  "seen_maxlen = 2000"

definition seen_append :: "signature list \<Rightarrow> signature \<Rightarrow> signature list" where
  "seen_append seen sg = deque_append seen_maxlen seen sg"

section \<open>The body of the polling loop\<close>

text \<open>
  The state of a run: the dedup filter, the aggregate, the events printed so far and the
  snapshots of the aggregate written to \<^verbatim>\<open>inventory.json\<close>.
\<close>

record run_state =
  seen :: "signature list"
  inv :: aggregate
  printed :: "(string \<times> json \<times> json list) list"
  saved :: "aggregate list"

text \<open>The loop body from the construction of \<^verbatim>\<open>sig\<close> on, for a decoded event.\<close>

definition handle_event ::
  "(string \<Rightarrow> pyfloat option) \<Rightarrow> (string \<Rightarrow> int option) \<Rightarrow> (pyfloat \<Rightarrow> string) \<Rightarrow>
   run_state \<Rightarrow> string \<times> json \<times> json list \<Rightarrow> run_state result" where
  "handle_event sf si fr st ev =
     (let sg = event_sig fr ev in
      if sig_in sg (seen st) then Inr st
      else
        let st1 = st\<lparr>seen := seen_append (seen st) sg, printed := printed st @ [ev]\<rparr> in
        py_bind (try_extract_inventory (snd (snd ev))) (\<lambda>items.
          if items \<noteq> []
          then py_bind (merge_inventory sf si (inv st1) items) (\<lambda>inv'.
                 Inr (st1\<lparr>inv := inv', saved := saved st1 @ [inv']\<rparr>))
          else Inr st1))"

definition handle_frame ::
  "(string \<Rightarrow> json option) \<Rightarrow> (string \<Rightarrow> pyfloat option) \<Rightarrow> (string \<Rightarrow> int option) \<Rightarrow>
   (pyfloat \<Rightarrow> string) \<Rightarrow> run_state \<Rightarrow> string \<times> json \<Rightarrow> run_state result" where
  "handle_frame loads sf si fr st frame =
     (case frame of (direction, payload) \<Rightarrow>
        py_bind (parse_socketio loads payload) (\<lambda>evt.
          case evt of
            None \<Rightarrow> Inr st
          | Some (name, evt_args) \<Rightarrow> handle_event sf si fr st (direction, name, evt_args)))"

text \<open>The loop body over the decoded events of a run, in order.\<close>

fun handle_events ::
  "(string \<Rightarrow> pyfloat option) \<Rightarrow> (string \<Rightarrow> int option) \<Rightarrow> (pyfloat \<Rightarrow> string) \<Rightarrow>
   run_state \<Rightarrow> (string \<times> json \<times> json list) list \<Rightarrow> run_state result" where
  "handle_events sf si fr st [] = Inr st"
| "handle_events sf si fr st (ev # evs) =
     py_bind (handle_event sf si fr st ev) (\<lambda>st'. handle_events sf si fr st' evs)"

fun handle_frames ::
  "(string \<Rightarrow> json option) \<Rightarrow> (string \<Rightarrow> pyfloat option) \<Rightarrow> (string \<Rightarrow> int option) \<Rightarrow>
   (pyfloat \<Rightarrow> string) \<Rightarrow> run_state \<Rightarrow> (string \<times> json) list \<Rightarrow> run_state result" where
  "handle_frames loads sf si fr st [] = Inr st"
| "handle_frames loads sf si fr st (f # fs) =
     py_bind (handle_frame loads sf si fr st f) (\<lambda>st'. handle_frames loads sf si fr st' fs)"

text \<open>
  One turn of the \<^verbatim>\<open>while\<close> loop: the frames of the poll are handled in order, and
  an exception of the generator or of the body leaves the loop.
\<close>

definition poll ::
  "(string \<Rightarrow> json option) \<Rightarrow> (string \<Rightarrow> pyfloat option) \<Rightarrow> (string \<Rightarrow> int option) \<Rightarrow>
   (pyfloat \<Rightarrow> string) \<Rightarrow> run_state \<Rightarrow> json list result \<Rightarrow> run_state result" where
  "poll loads sf si fr st get_log =
     (case iter_ws_frames loads get_log of (fs, e) \<Rightarrow>
        py_bind (handle_frames loads sf si fr st fs) (\<lambda>st'.
          case e of None \<Rightarrow> Inr st' | Some err \<Rightarrow> Inl err))"

text \<open>Signatures that are pairwise different under \<^verbatim>\<open>==\<close>.\<close>

fun sigs_distinct :: "signature list \<Rightarrow> bool" where
  "sigs_distinct [] = True"
| "sigs_distinct (sg # sgs) = (\<not> sig_in sg sgs \<and> sigs_distinct sgs)"

text \<open>
  Events for the examples: \<^verbatim>\<open>42["ping"]\<close> and \<^verbatim>\<open>42[i]\<close> received, and the
  signature of the latter.
\<close>

definition ping_event :: "string \<times> json \<times> json list" where
  "ping_event = (''in'', JStr ''ping'', [])"

definition numbered_event :: "nat \<Rightarrow> string \<times> json \<times> json list" where
  "numbered_event i = (''in'', JInt (int i), [])"

definition numbered_sig :: "nat \<Rightarrow> signature" where
  "numbered_sig i = (''in'', JInt (int i), ''[]'')"

definition initial_state :: run_state where
  "initial_state = \<lparr>seen = [], inv = [], printed = [], saved = []\<rparr>"

section \<open>Well-formed values and equal content\<close>

text \<open>The keys of a Python dict are distinct.\<close>

fun wf_json :: "json \<Rightarrow> bool" where
  "wf_json (JArr xs) = (\<forall>x \<in> set xs. wf_json x)"
| "wf_json (JObj kvs) = (distinct (map fst kvs) \<and> (\<forall>v \<in> snd ` set kvs. wf_json v))"
| "wf_json v = True"

text \<open>
  Two values have the same content when they differ at most in the order of the items
  of their objects.
\<close>

fun same_content :: "json \<Rightarrow> json \<Rightarrow> bool" where
  "same_content (JArr xs) (JArr ys) = list_all2 same_content xs ys"
| "same_content (JObj kvs) (JObj kvs') =
     (length kvs = length kvs' \<and>
      (\<forall>(k, v) \<in> set kvs. case map_of kvs' k of None \<Rightarrow> False | Some v' \<Rightarrow> same_content v v'))"
| "same_content a b = (a = b)"

section \<open>Readers for the examples\<close>

text \<open>
  The theorems below hold for every \<open>loads\<close>, \<open>sf\<close>, \<open>si\<close> and \<open>fr\<close>. Their
  instances at concrete inputs use the readers of this section: \<open>read_json\<close> reads the
  JSON texts whose numbers are integers and whose strings have no \<^verbatim>\<open>\u\<close> escape, as
  \<^verbatim>\<open>json.loads\<close> does on these texts (a repeated key keeps its first position and
  its last value); \<open>read_int\<close> and \<open>read_float\<close> read a signed decimal integer;
  \<open>repr_integral\<close> writes a float that is an integer of at most 16 digits.
\<close>

definition is_ws :: "char \<Rightarrow> bool" where
  "is_ws c = (c = CHR '' '' \<or> c = CHR 0x09 \<or> c = CHR 0x0A \<or> c = CHR 0x0D)"

definition is_digit :: "char \<Rightarrow> bool" where
  "is_digit c = (CHR ''0'' \<le> c \<and> c \<le> CHR ''9'')"

definition digits_val :: "string \<Rightarrow> nat" where
  "digits_val ds = foldl (\<lambda>a c. 10 * a + (of_char c - of_char (CHR ''0''))) 0 ds"

definition unescape :: "char \<Rightarrow> char option" where
  "unescape e =
     (if e = CHR 0x22 \<or> e = CHR 0x5C \<or> e = CHR ''/'' then Some e
      else if e = CHR ''b'' then Some (CHR 0x08)
      else if e = CHR ''f'' then Some (CHR 0x0C)
      else if e = CHR ''n'' then Some (CHR 0x0A)
      else if e = CHR ''r'' then Some (CHR 0x0D)
      else if e = CHR ''t'' then Some (CHR 0x09)
      else None)"

fun read_string :: "string \<Rightarrow> (string \<times> string) option" where
  "read_string [] = None"
| "read_string [c] = (if c = CHR 0x22 then Some ([], []) else None)"
| "read_string (c # e # cs) =
     (if c = CHR 0x22 then Some ([], e # cs)
      else if c = CHR 0x5C
      then (case unescape e of
              None \<Rightarrow> None
            | Some d \<Rightarrow> map_option (apfst ((#) d)) (read_string cs))
      else if of_char c < (32 :: nat) then None
      else map_option (apfst ((#) c)) (read_string (e # cs)))"

definition read_number :: "string \<Rightarrow> (json \<times> string) option" where
  "read_number s =
     (let neg = (take 1 s = ''-'');
          t = (if neg then drop 1 s else s);
          ds = takeWhile is_digit t;
          rest = dropWhile is_digit t
      in if ds = [] \<or> (1 < length ds \<and> hd ds = CHR ''0'') then None
         else if rest \<noteq> [] \<and> hd rest \<in> {CHR ''.'', CHR ''e'', CHR ''E''} then None
         else Some (JInt (if neg then - int (digits_val ds) else int (digits_val ds)), rest))"

fun read_value :: "nat \<Rightarrow> string \<Rightarrow> (json \<times> string) option"
  and read_elems :: "nat \<Rightarrow> json list \<Rightarrow> string \<Rightarrow> (json list \<times> string) option"
  and read_members :: "nat \<Rightarrow> (string \<times> json) list \<Rightarrow> string \<Rightarrow> ((string \<times> json) list \<times> string) option"
where
  "read_value 0 s = None"
| "read_value (Suc n) s =
     (case dropWhile is_ws s of
        [] \<Rightarrow> None
      | c # cs \<Rightarrow>
          if c = CHR 0x22 then map_option (apfst JStr) (read_string cs)
          else if c = CHR ''['' then
            (case dropWhile is_ws cs of
               [] \<Rightarrow> None
             | d # ds \<Rightarrow> if d = CHR '']'' then Some (JArr [], ds)
                         else map_option (apfst JArr) (read_elems n [] cs))
          else if c = CHR ''{'' then
            (case dropWhile is_ws cs of
               [] \<Rightarrow> None
             | d # ds \<Rightarrow> if d = CHR ''}'' then Some (JObj [], ds)
                         else map_option (apfst JObj) (read_members n [] cs))
          else if startswith (c # cs) ''true'' then Some (JBool True, drop 3 cs)
          else if startswith (c # cs) ''false'' then Some (JBool False, drop 4 cs)
          else if startswith (c # cs) ''null'' then Some (JNull, drop 3 cs)
          else read_number (c # cs))"
| "read_elems 0 acc s = None"
| "read_elems (Suc n) acc s =
     (case read_value n s of
        None \<Rightarrow> None
      | Some (v, rest) \<Rightarrow>
          (case dropWhile is_ws rest of
             [] \<Rightarrow> None
           | d # ds \<Rightarrow> if d = CHR '']'' then Some (acc @ [v], ds)
                       else if d = CHR '','' then read_elems n (acc @ [v]) ds
                       else None))"
| "read_members 0 acc s = None"
| "read_members (Suc n) acc s =
     (case dropWhile is_ws s of
        [] \<Rightarrow> None
      | q # qs \<Rightarrow>
          if q \<noteq> CHR 0x22 then None
          else (case read_string qs of
                  None \<Rightarrow> None
                | Some (k, rest) \<Rightarrow>
                    (case dropWhile is_ws rest of
                       [] \<Rightarrow> None
                     | c # cs \<Rightarrow>
                         if c \<noteq> CHR '':'' then None
                         else (case read_value n cs of
                                 None \<Rightarrow> None
                               | Some (v, rest') \<Rightarrow>
                                   (case dropWhile is_ws rest' of
                                      [] \<Rightarrow> None
                                    | d # ds \<Rightarrow>
                                        if d = CHR ''}'' then Some (AList.update k v acc, ds)
                                        else if d = CHR '','' then read_members n (AList.update k v acc) ds
                                        else None)))))"

definition read_json :: "string \<Rightarrow> json option" where
  "read_json s =
     (case read_value (Suc (length s)) s of
        None \<Rightarrow> None
      | Some (v, rest) \<Rightarrow> if dropWhile is_ws rest = [] then Some v else None)"

definition read_int :: "string \<Rightarrow> int option" where
  "read_int s =
     (let neg = (take 1 s = ''-'');
          ds = (if neg \<or> take 1 s = ''+'' then drop 1 s else s)
      in if ds \<noteq> [] \<and> list_all is_digit ds
         then Some (if neg then - int (digits_val ds) else int (digits_val ds))
         else None)"

definition read_float :: "string \<Rightarrow> pyfloat option" where
  "read_float s = (case read_int s of None \<Rightarrow> None | Some i \<Rightarrow> Some (round64 (of_int i)))"

definition repr_integral :: "pyfloat \<Rightarrow> string" where
  "repr_integral x =
     (case x of
        Fin a \<Rightarrow> int_repr \<lfloor>a\<rfloor> @ ''.0''
      | NegZero \<Rightarrow> ''-0.0''
      | PInf \<Rightarrow> ''inf''
      | NInf \<Rightarrow> ''-inf''
      | NaN \<Rightarrow> ''nan'')"

section \<open>Socket.IO decoder: results\<close>

lemma parse_socketio_tagged:
  "parse_socketio loads (JStr (CHR ''4'' # CHR ''2'' # s)) =
     Inr (case loads s of Some (JArr (x # xs)) \<Rightarrow> Some (x, xs) | _ \<Rightarrow> None)"
  by (simp add: parse_socketio_def startswith_def try_except_def py_bind_def list_index_def
        split: option.splits json.splits list.splits)

lemma parse_socketio_untagged:
  "\<not> startswith s ''42'' \<Longrightarrow> parse_socketio loads (JStr s) = Inr None"
  by (simp add: parse_socketio_def)

lemma startswith_42: "startswith s ''42'' \<Longrightarrow> s = ''42'' @ drop 2 s"
proof -
  assume "startswith s ''42''"
  then have "take 2 s = ''42''" by (simp add: startswith_def numeral_2_eq_2)
  then have "take 2 s @ drop 2 s = ''42'' @ drop 2 s" by simp
  then show ?thesis by (simp only: append_take_drop_id)
qed

text \<open>
  C3. A payload decodes to an event exactly when it is a string that starts with
  \<^verbatim>\<open>42\<close> and whose remainder \<^verbatim>\<open>json.loads\<close> parses as a non-empty
  array: the event is then the first element, of any type, with the remaining elements
  in order. Every other payload decodes to \<^verbatim>\<open>None\<close>, and no payload raises.
\<close>

theorem parse_socketio_event:
  "(loads s = Some (JArr (x # xs)) \<longrightarrow>
      parse_socketio loads (JStr (''42'' @ s)) = Inr (Some (x, xs)))
   \<and> ((\<nexists>t y ys. payload = JStr (''42'' @ t) \<and> loads t = Some (JArr (y # ys))) \<longrightarrow>
      parse_socketio loads payload = Inr None)"
proof (intro conjI impI)
  assume "loads s = Some (JArr (x # xs))"
  then show "parse_socketio loads (JStr (''42'' @ s)) = Inr (Some (x, xs))"
    by (simp add: parse_socketio_tagged)
next
  assume none: "\<nexists>t y ys. payload = JStr (''42'' @ t) \<and> loads t = Some (JArr (y # ys))"
  show "parse_socketio loads payload = Inr None"
  proof (cases payload)
    case (JStr s)
    show ?thesis
    proof (cases "startswith s ''42''")
      case True
      then have s: "s = ''42'' @ drop 2 s" by (rule startswith_42)
      have "\<nexists>y ys. loads (drop 2 s) = Some (JArr (y # ys))"
        using none JStr s by metis
      then have "(case loads (drop 2 s) of Some (JArr (x # xs)) \<Rightarrow> Some (x, xs) | _ \<Rightarrow> None) = None"
        by (auto split: option.splits json.splits list.splits)
      then have "parse_socketio loads (JStr (''42'' @ drop 2 s)) = Inr None"
        by (simp add: parse_socketio_tagged)
      then show ?thesis using s JStr by simp
    next
      case False
      then show ?thesis using JStr by (simp add: parse_socketio_untagged)
    qed
  qed (simp_all add: parse_socketio_def)
qed

lemmas reader_defs = read_json_def is_ws_def is_digit_def read_number_def digits_val_def
  startswith_def unescape_def

text \<open>
  The instance at the specification's example \<^verbatim>\<open>42["priceUpdate",{"x":1}]\<close> and
  at an untagged payload.
\<close>

theorem parse_socketio_event_witness:
  \<open>read_json ''["priceUpdate",{"x":1}]'' = Some (JArr [JStr ''priceUpdate'', JObj [(''x'', JInt 1)]])
   \<and> parse_socketio read_json (JStr ''42["priceUpdate",{"x":1}]'')
       = Inr (Some (JStr ''priceUpdate'', [JObj [(''x'', JInt 1)]]))
   \<and> (\<nexists>t y ys. JStr ''2probe'' = JStr (''42'' @ t) \<and> read_json t = Some (JArr (y # ys)))
   \<and> parse_socketio read_json (JStr ''2probe'') = Inr None\<close>
proof -
  have r: \<open>read_json ''["priceUpdate",{"x":1}]'' = Some (JArr [JStr ''priceUpdate'', JObj [(''x'', JInt 1)]])\<close>
    by (simp add: reader_defs)
  have n: "\<nexists>t y ys. JStr ''2probe'' = JStr (''42'' @ t) \<and> read_json t = Some (JArr (y # ys))"
    by simp
  from r n
    parse_socketio_event [of read_json \<open>''["priceUpdate",{"x":1}]''\<close> "JStr ''priceUpdate''"
      "[JObj [(''x'', JInt 1)]]" "JStr ''2probe''"]
  show ?thesis by simp
qed

section \<open>Inventory candidate locator: results\<close>

lemma top_step:
  "py_bind (py_get (JObj kvs) ''inventory'') (\<lambda>i2.
     if is_list i2
     then py_bind (py_item (JObj kvs) ''inventory'') (\<lambda>c. Inr (cs @ [c]))
     else Inr cs) = Inr (cs @ opt_cand (top_inventory kvs))"
  by (cases "map_of kvs ''inventory''"; cases "the (map_of kvs ''inventory'')")
     (simp_all add: py_bind_def py_get_def top_inventory_def opt_cand_def)

lemma nested_step:
  "py_bind (py_get (JObj kvs) ''data'') (\<lambda>d.
     py_bind
       (if is_dict d
        then py_bind (py_item (JObj kvs) ''data'') (\<lambda>d1.
             py_bind (py_get d1 ''inventory'') (\<lambda>i. Inr (is_list i)))
        else Inr False) (\<lambda>nested.
     py_bind
       (if nested
        then py_bind (py_item (JObj kvs) ''data'') (\<lambda>d2.
             py_bind (py_item d2 ''inventory'') (\<lambda>c. Inr [c]))
        else Inr []) K)) = K (opt_cand (nested_inventory kvs))"
proof (cases "map_of kvs ''data''")
  case None
  then show ?thesis
    by (simp add: py_bind_def py_get_def nested_inventory_def opt_cand_def)
next
  case (Some d)
  show ?thesis
  proof (cases d)
    case (JObj dkvs)
    show ?thesis
      using Some JObj
      by (cases "map_of dkvs ''inventory''"; cases "the (map_of dkvs ''inventory'')")
         (simp_all add: py_bind_def py_get_def nested_inventory_def opt_cand_def)
  qed (use Some in \<open>simp_all add: py_bind_def py_get_def nested_inventory_def opt_cand_def\<close>)
qed

lemma inventory_cands_obj:
  "inventory_cands (JObj kvs) =
     Inr (opt_cand (nested_inventory kvs) @ opt_cand (top_inventory kvs))"
  unfolding inventory_cands_def
  by (simp only: is_dict.simps if_True top_step nested_step) (simp add: py_bind_def)

lemma inventory_cands_other:
  "\<not> is_dict first \<Longrightarrow> inventory_cands first = Inr (if is_list first then [first] else [])"
  by (simp add: inventory_cands_def py_bind_def)

lemma try_extract_inventory_located:
  "try_extract_inventory args =
     Inr (case args of [] \<Rightarrow> [] | first # rest \<Rightarrow> located_inventory first)"
proof (cases args)
  case Nil
  then show ?thesis by (simp add: try_extract_inventory_def)
next
  case (Cons first rest)
  show ?thesis
  proof (cases first)
    case (JObj kvs)
    then show ?thesis using Cons
      by (simp add: try_extract_inventory_def list_index_def py_bind_def inventory_cands_obj
            located_inventory_def opt_cand_def split: option.splits)
  qed (use Cons in \<open>simp_all add: try_extract_inventory_def list_index_def py_bind_def
            inventory_cands_other located_inventory_def\<close>)
qed

text \<open>
  C4. When the first argument is an object whose \<^verbatim>\<open>data\<close> field is an object with a
  list \<open>la\<close> under \<^verbatim>\<open>inventory\<close>, and which has a list \<open>lb\<close> under its own
  \<^verbatim>\<open>inventory\<close>, the locator returns \<open>la\<close>. In general it returns the first match
  among \<^verbatim>\<open>data.inventory\<close>, \<^verbatim>\<open>inventory\<close> and the first argument itself when
  that is a list, and the empty list when nothing matches or there is no argument.
\<close>

theorem try_extract_inventory_priority:
  "(map_of kvs ''data'' = Some (JObj d) \<and> map_of d ''inventory'' = Some (JArr la) \<and>
    map_of kvs ''inventory'' = Some (JArr lb) \<longrightarrow>
      try_extract_inventory (JObj kvs # rest) = Inr la)
   \<and> try_extract_inventory args =
       Inr (case args of [] \<Rightarrow> [] | first # others \<Rightarrow> located_inventory first)"
  by (simp add: try_extract_inventory_located located_inventory_def nested_inventory_def)

theorem try_extract_inventory_priority_witness:
  "map_of [(''data'', JObj [(''inventory'', JArr [JStr ''A''])]), (''inventory'', JArr [JStr ''B''])]
     ''data'' = Some (JObj [(''inventory'', JArr [JStr ''A''])])
   \<and> map_of [(''inventory'', JArr [JStr ''A''])] ''inventory'' = Some (JArr [JStr ''A''])
   \<and> map_of [(''data'', JObj [(''inventory'', JArr [JStr ''A''])]), (''inventory'', JArr [JStr ''B''])]
     ''inventory'' = Some (JArr [JStr ''B''])
   \<and> try_extract_inventory
       [JObj [(''data'', JObj [(''inventory'', JArr [JStr ''A''])]), (''inventory'', JArr [JStr ''B''])]]
     = Inr [JStr ''A'']
   \<and> try_extract_inventory [] = Inr []"
  using try_extract_inventory_priority
    [of "[(''data'', JObj [(''inventory'', JArr [JStr ''A''])]), (''inventory'', JArr [JStr ''B''])]"
        "[(''inventory'', JArr [JStr ''A''])]" "[JStr ''A'']" "[JStr ''B'']" "[]" "[]"]
  by simp

text \<open>
  C5 as stated fails: a first argument that is a list is not an object, so the only
  candidate is the one the fallback branch appends, and the locator returns it.
\<close>

theorem fallback_branch_reached:
  "inventory_cands (JArr [JStr ''A'']) = Inr [JArr [JStr ''A'']]
   \<and> try_extract_inventory [JArr [JStr ''A'']] = Inr [JStr ''A'']"
  by (simp add: try_extract_inventory_def list_index_def py_bind_def inventory_cands_other)

text \<open>
  C5, amended. The fallback branch is taken exactly when the first argument is itself a
  list: that list is then the only candidate and is returned. When the first argument is
  not a list the branch adds no candidate, and the result is the empty list unless the
  first argument is an object.
\<close>

theorem fallback_branch_when_list:
  "inventory_cands (JArr xs) = Inr [JArr xs]
   \<and> try_extract_inventory (JArr xs # rest) = Inr xs
   \<and> (\<not> is_list first \<longrightarrow> (\<exists>cs. inventory_cands first = Inr cs \<and> first \<notin> set cs))
   \<and> (\<not> is_list first \<and> \<not> is_dict first \<longrightarrow> try_extract_inventory (first # rest) = Inr [])"
proof (intro conjI impI)
  show "inventory_cands (JArr xs) = Inr [JArr xs]"
    by (simp add: inventory_cands_other)
  show "try_extract_inventory (JArr xs # rest) = Inr xs"
    by (simp add: try_extract_inventory_located located_inventory_def)
next
  assume "\<not> is_list first"
  then show "\<exists>cs. inventory_cands first = Inr cs \<and> first \<notin> set cs"
    by (cases first)
       (auto simp: inventory_cands_obj inventory_cands_other opt_cand_def split: option.splits)
next
  assume "\<not> is_list first \<and> \<not> is_dict first"
  then show "try_extract_inventory (first # rest) = Inr []"
    by (cases first) (simp_all add: try_extract_inventory_located located_inventory_def)
qed

theorem fallback_branch_when_list_witness:
  "inventory_cands (JArr [JStr ''A'']) = Inr [JArr [JStr ''A'']]
   \<and> try_extract_inventory [JArr [JStr ''A''], JNull] = Inr [JStr ''A'']
   \<and> \<not> is_list (JObj [(''inventory'', JArr [JStr ''B''])])
   \<and> (\<exists>cs. inventory_cands (JObj [(''inventory'', JArr [JStr ''B''])]) = Inr cs
           \<and> JObj [(''inventory'', JArr [JStr ''B''])] \<notin> set cs)
   \<and> \<not> is_list (JInt 7) \<and> \<not> is_dict (JInt 7)
   \<and> try_extract_inventory [JInt 7, JNull] = Inr []"
  using fallback_branch_when_list [of "[JStr ''A'']" "[JNull]" "JObj [(''inventory'', JArr [JStr ''B''])]"]
    fallback_branch_when_list [of "[JStr ''A'']" "[JNull]" "JInt 7"]
  by simp

section \<open>Inventory aggregator: results\<close>

lemma py_eq_refl: "py_eq a a"
  by (simp add: py_eq_def)

lemma py_eq_sym: "py_eq a b \<Longrightarrow> py_eq b a"
  by (simp add: py_eq_def)

lemma py_eq_trans: "py_eq a b \<Longrightarrow> py_eq b c \<Longrightarrow> py_eq a c"
  by (simp add: py_eq_def)

lemma agg_lookup_bump:
  "agg_lookup (bump agg n q p) m =
     (if py_eq n m
      then Some \<lparr>amount = amount_of agg m + q, total_price = float_add (total_of agg m) p\<rparr>
      else agg_lookup agg m)"
proof (induction agg)
  case Nil
  then show ?case by (simp add: amount_of_def total_of_def)
next
  case (Cons kr agg)
  obtain k r where kr: "kr = (k, r)" by (cases kr)
  show ?case
  proof (cases "py_eq k n")
    case True
    then have "py_eq k m \<longleftrightarrow> py_eq n m"
      by (simp add: py_eq_def)
    with True kr show ?thesis
      by (simp add: amount_of_def total_of_def)
  next
    case False
    then have "py_eq k m \<Longrightarrow> \<not> py_eq n m"
      by (simp add: py_eq_def)
    with False kr Cons.IH show ?thesis
      by (auto simp: amount_of_def total_of_def)
  qed
qed

lemma amount_of_bump:
  "amount_of (bump agg n q p) m = amount_of agg m + (if py_eq n m then q else 0)"
  by (simp add: amount_of_def [of "bump agg n q p"] agg_lookup_bump) (simp add: amount_of_def)

lemma total_of_bump:
  "total_of (bump agg n q p) m =
     (if py_eq n m then float_add (total_of agg m) p else total_of agg m)"
  by (simp add: total_of_def [of "bump agg n q p"] agg_lookup_bump) (simp add: total_of_def)

lemma merge_inventory_sums:
  "merge_inventory sf si agg items = Inr agg' \<Longrightarrow>
     \<exists>fs. map (item_fields sf si) items = map Inr fs
        \<and> (\<forall>m. amount_of agg' m
                  = amount_of agg m + (\<Sum>(n, q, p) \<leftarrow> fs. if py_eq n m then q else 0)
              \<and> total_of agg' m
                  = foldl float_add (total_of agg m)
                      (map (\<lambda>(n, q, p). p) (filter (\<lambda>(n, q, p). py_eq n m) fs)))"
proof (induction items arbitrary: agg)
  case Nil
  then show ?case by simp
next
  case (Cons it items)
  from Cons.prems obtain n q p where
    f: "item_fields sf si it = Inr (n, q, p)" and
    rest: "merge_inventory sf si (bump agg n q p) items = Inr agg'"
    by (auto simp: py_bind_def split: sum.splits)
  from Cons.IH [OF rest] obtain fs where
    fs: "map (item_fields sf si) items = map Inr fs" and
    sums: "\<And>m. amount_of agg' m
                  = amount_of (bump agg n q p) m + (\<Sum>(n, q, p) \<leftarrow> fs. if py_eq n m then q else 0)
              \<and> total_of agg' m
                  = foldl float_add (total_of (bump agg n q p) m)
                      (map (\<lambda>(n, q, p). p) (filter (\<lambda>(n, q, p). py_eq n m) fs))"
    by blast
  show ?case
  proof (intro exI [of _ "(n, q, p) # fs"] conjI allI)
    show "map (item_fields sf si) (it # items) = map Inr ((n, q, p) # fs)"
      using f fs by simp
  next
    fix m
    show "amount_of agg' m
            = amount_of agg m + (\<Sum>(n, q, p) \<leftarrow> (n, q, p) # fs. if py_eq n m then q else 0)"
      using sums [of m] by (simp add: amount_of_bump)
    show "total_of agg' m
            = foldl float_add (total_of agg m)
                (map (\<lambda>(n, q, p). p) (filter (\<lambda>(n, q, p). py_eq n m) ((n, q, p) # fs)))"
      using sums [of m] by (simp add: total_of_bump)
  qed
qed

lemma item_fields_price:
  "item_fields sf si it = Inr (n, q, p) \<Longrightarrow>
     \<exists>cents. item_cents it = Inr cents
        \<and> p = (case py_float sf cents of Inl e \<Rightarrow> Fin 0 | Inr f \<Rightarrow> div_100 f)"
  by (auto simp: item_fields_def item_price_def try_except_def py_bind_def
        split: sum.splits if_splits)

lemmas item_defs = item_fields_def item_name_def item_cents_def item_price_def item_qty_def
  py_or_def py_bind_def py_get_def try_except_def

text \<open>
  Roundings the examples meet. A hundredth of 10 and of 20 are not doubles, and neither is
  their sum: \<^verbatim>\<open>10 / 100.0 + 20 / 100.0\<close> is \<^verbatim>\<open>0.30000000000000004\<close>.
\<close>

lemma round64_0: "round64 0 = Fin 0"
  by (simp add: round64_def)

lemma round64_250: "round64 250 = Fin 250"
  by code_simp

lemma round64_5_2: "round64 (5 / 2) = Fin (5 / 2)"
  by code_simp

lemma tenth_rounded: "div_100 (Fin 10) = Fin (3602879701896397 / 2 ^ 55)"
  by code_simp

lemma three_tenths_rounded:
  "float_add (div_100 (Fin 10)) (div_100 (Fin 20)) = Fin (1351079888211149 / 2 ^ 52)"
  by code_simp

lemma widget_merge:
  "merge_inventory sf si []
     [JObj [(''name'', JStr ''Widget''), (''price'', JInt 250), (''amount'', JInt 2)]]
   = Inr [(JStr ''Widget'', \<lparr>amount = 2, total_price = Fin (5 / 2)\<rparr>)]"
  by (simp add: item_defs round64_250 round64_5_2)

text \<open>
  C1. Merging the record \<^verbatim>\<open>{"name":"Widget","price":250,"amount":2}\<close> into the empty
  aggregate gives \<^verbatim>\<open>{"Widget": {"amount": 2, "total_price": 2.5}}\<close>. In general,
  when a merge returns, every record has contributed once: its quantity has been added
  to the amount of its name, and its price, which is its price field divided by 100.0
  and not a multiple of the quantity, has been added to the total of its name, by the
  float addition of the program and in the order of the records.
\<close>

theorem merge_inventory_adds_once:
  "merge_inventory sf si []
     [JObj [(''name'', JStr ''Widget''), (''price'', JInt 250), (''amount'', JInt 2)]]
   = Inr [(JStr ''Widget'', \<lparr>amount = 2, total_price = Fin (5 / 2)\<rparr>)]
   \<and> (merge_inventory sf si agg items = Inr agg' \<longrightarrow>
       (\<exists>fs. map (item_fields sf si) items = map Inr fs
          \<and> (\<forall>(n, q, p) \<in> set fs. \<forall>it. item_fields sf si it = Inr (n, q, p) \<longrightarrow>
                (\<exists>cents. item_cents it = Inr cents
                   \<and> p = (case py_float sf cents of Inl e \<Rightarrow> Fin 0 | Inr f \<Rightarrow> div_100 f)))
          \<and> (\<forall>m. amount_of agg' m
                    = amount_of agg m + (\<Sum>(n, q, p) \<leftarrow> fs. if py_eq n m then q else 0)
                \<and> total_of agg' m
                    = foldl float_add (total_of agg m)
                        (map (\<lambda>(n, q, p). p) (filter (\<lambda>(n, q, p). py_eq n m) fs)))))"
proof (intro conjI impI)
  show "merge_inventory sf si []
     [JObj [(''name'', JStr ''Widget''), (''price'', JInt 250), (''amount'', JInt 2)]]
   = Inr [(JStr ''Widget'', \<lparr>amount = 2, total_price = Fin (5 / 2)\<rparr>)]"
    by (rule widget_merge)
next
  assume "merge_inventory sf si agg items = Inr agg'"
  from merge_inventory_sums [OF this] obtain fs where
    fs: "map (item_fields sf si) items = map Inr fs"
      "\<forall>m. amount_of agg' m
                    = amount_of agg m + (\<Sum>(n, q, p) \<leftarrow> fs. if py_eq n m then q else 0)
                \<and> total_of agg' m
                    = foldl float_add (total_of agg m)
                        (map (\<lambda>(n, q, p). p) (filter (\<lambda>(n, q, p). py_eq n m) fs))"
    by blast
  have "\<forall>(n, q, p) \<in> set fs. \<forall>it. item_fields sf si it = Inr (n, q, p) \<longrightarrow>
                (\<exists>cents. item_cents it = Inr cents
                   \<and> p = (case py_float sf cents of Inl e \<Rightarrow> Fin 0 | Inr f \<Rightarrow> div_100 f))"
    using item_fields_price by blast
  with fs show "\<exists>fs. map (item_fields sf si) items = map Inr fs
          \<and> (\<forall>(n, q, p) \<in> set fs. \<forall>it. item_fields sf si it = Inr (n, q, p) \<longrightarrow>
                (\<exists>cents. item_cents it = Inr cents
                   \<and> p = (case py_float sf cents of Inl e \<Rightarrow> Fin 0 | Inr f \<Rightarrow> div_100 f)))
          \<and> (\<forall>m. amount_of agg' m
                    = amount_of agg m + (\<Sum>(n, q, p) \<leftarrow> fs. if py_eq n m then q else 0)
                \<and> total_of agg' m
                    = foldl float_add (total_of agg m)
                        (map (\<lambda>(n, q, p). p) (filter (\<lambda>(n, q, p). py_eq n m) fs)))"
    by blast
qed

text \<open>
  The instance at two records of one name, with prices 10 and 20 and quantities 1 and 3,
  merged into the empty aggregate: the amount is 4 and the total is the double
  \<^verbatim>\<open>0.30000000000000004\<close>.
\<close>

theorem merge_inventory_adds_once_witness:
  "merge_inventory read_float read_int []
     [JObj [(''name'', JStr ''Crate''), (''price'', JInt 10), (''amount'', JInt 1)],
      JObj [(''name'', JStr ''Crate''), (''price'', JInt 20), (''amount'', JInt 3)]]
   = Inr [(JStr ''Crate'', \<lparr>amount = 4, total_price = Fin (1351079888211149 / 2 ^ 52)\<rparr>)]
   \<and> (\<exists>fs. map (item_fields read_float read_int)
               [JObj [(''name'', JStr ''Crate''), (''price'', JInt 10), (''amount'', JInt 1)],
                JObj [(''name'', JStr ''Crate''), (''price'', JInt 20), (''amount'', JInt 3)]]
             = map Inr fs
          \<and> (\<forall>m. amount_of
                     [(JStr ''Crate'', \<lparr>amount = 4, total_price = Fin (1351079888211149 / 2 ^ 52)\<rparr>)] m
                    = amount_of [] m + (\<Sum>(n, q, p) \<leftarrow> fs. if py_eq n m then q else 0)
                \<and> total_of
                     [(JStr ''Crate'', \<lparr>amount = 4, total_price = Fin (1351079888211149 / 2 ^ 52)\<rparr>)] m
                    = foldl float_add (total_of [] m)
                        (map (\<lambda>(n, q, p). p) (filter (\<lambda>(n, q, p). py_eq n m) fs))))"
proof -
  have h: "merge_inventory read_float read_int []
     [JObj [(''name'', JStr ''Crate''), (''price'', JInt 10), (''amount'', JInt 1)],
      JObj [(''name'', JStr ''Crate''), (''price'', JInt 20), (''amount'', JInt 3)]]
   = Inr [(JStr ''Crate'', \<lparr>amount = 4, total_price = Fin (1351079888211149 / 2 ^ 52)\<rparr>)]"
    by code_simp
  from merge_inventory_adds_once [of read_float read_int "[]"
      "[JObj [(''name'', JStr ''Crate''), (''price'', JInt 10), (''amount'', JInt 1)],
        JObj [(''name'', JStr ''Crate''), (''price'', JInt 20), (''amount'', JInt 3)]]"
      "[(JStr ''Crate'', \<lparr>amount = 4, total_price = Fin (1351079888211149 / 2 ^ 52)\<rparr>)]"] h
  show ?thesis by blast
qed

text \<open>
  C2 fails on the code. The conversion of the price is inside a \<^verbatim>\<open>try\<close>, so a
  price that is not a number counts as 0.0; the conversion of the quantity is not, so a
  quantity that is not a number raises out of \<^verbatim>\<open>merge_inventory\<close>: \<^verbatim>\<open>ValueError\<close>
  for a string such as \<^verbatim>\<open>"abc"\<close>, \<^verbatim>\<open>TypeError\<close> for a list.
\<close>

theorem merge_inventory_quantity_raises:
  "merge_inventory read_float read_int []
     [JObj [(''name'', JStr ''Widget''), (''price'', JStr ''abc''), (''amount'', JInt 2)]]
   = Inr [(JStr ''Widget'', \<lparr>amount = 2, total_price = Fin 0\<rparr>)]
   \<and> merge_inventory read_float read_int []
     [JObj [(''name'', JStr ''Widget''), (''price'', JInt 250), (''amount'', JStr ''abc'')]]
   = Inl ValueError
   \<and> merge_inventory sf si []
     [JObj [(''name'', JStr ''Widget''), (''price'', JInt 250), (''amount'', JArr [JInt 2])]]
   = Inl TypeError"
  by (simp add: item_defs read_float_def read_int_def is_digit_def round64_250 round64_5_2)

lemma py_or_get:
  "py_or (py_get (JObj kvs) k) (Inr (first_truthy kvs ks d)) = Inr (first_truthy kvs (k # ks) d)"
  by (simp add: py_or_def py_get_def py_bind_def split: option.splits)

lemma py_or_assoc: "py_or (py_or a b) c = py_or a (py_or b c)"
  by (cases a) (simp_all add: py_or_def py_bind_def)

text \<open>
  C8 as stated fails: a candidate that is present and not null but falsy, such as the
  empty string or 0, is skipped like an absent one.
\<close>

theorem falsy_candidate_skipped:
  "item_name (JObj [(''name'', JStr ''''), (''title'', JStr ''Crate'')]) = Inr (JStr ''Crate'')
   \<and> item_cents (JObj [(''price'', JInt 0), (''price_cents'', JInt 300)]) = Inr (JInt 300)
   \<and> item_qty read_int (JObj [(''amount'', JInt 0), (''quantity'', JInt 5)]) = Inr 5
   \<and> merge_inventory read_float read_int [] [JObj [(''name'', JStr ''Crate''), (''amount'', JInt 0)]]
     = Inr [(JStr ''Crate'', \<lparr>amount = 1, total_price = Fin 0\<rparr>)]"
  by (simp add: item_defs round64_0)

text \<open>
  C8, amended. Each field of a record is the first truthy value among its candidate
  keys: the name among \<^verbatim>\<open>name\<close>, \<^verbatim>\<open>market_hash_name\<close> and \<^verbatim>\<open>title\<close>, or
  \<^verbatim>\<open>"UNKNOWN"\<close>; the price among \<^verbatim>\<open>price\<close> and \<^verbatim>\<open>price_cents\<close>, or 0; the
  quantity, before its conversion to an integer, among \<^verbatim>\<open>amount\<close> and
  \<^verbatim>\<open>quantity\<close>, or 1. A candidate that is absent, null or otherwise falsy is passed
  over.
\<close>

theorem item_fields_first_truthy:
  "item_name (JObj kvs)
     = Inr (first_truthy kvs [''name'', ''market_hash_name'', ''title''] (JStr ''UNKNOWN''))
   \<and> item_cents (JObj kvs) = Inr (first_truthy kvs [''price'', ''price_cents''] (JInt 0))
   \<and> item_qty si (JObj kvs) = py_int si (first_truthy kvs [''amount'', ''quantity''] (JInt 1))"
proof (intro conjI)
  have d: "Inr d = Inr (first_truthy kvs [] d)" for d by simp
  show "item_name (JObj kvs)
     = Inr (first_truthy kvs [''name'', ''market_hash_name'', ''title''] (JStr ''UNKNOWN''))"
    unfolding item_name_def py_or_assoc
    by (subst d) (simp only: py_or_get)
  show "item_cents (JObj kvs) = Inr (first_truthy kvs [''price'', ''price_cents''] (JInt 0))"
    unfolding item_cents_def py_or_assoc
    by (subst d) (simp only: py_or_get)
  show "item_qty si (JObj kvs) = py_int si (first_truthy kvs [''amount'', ''quantity''] (JInt 1))"
    unfolding item_qty_def py_or_assoc
    by (subst d) (simp only: py_or_get py_bind_def sum.case)
qed

theorem item_fields_first_truthy_witness:
  "item_name (JObj [(''name'', JNull), (''market_hash_name'', JStr ''''), (''title'', JStr ''Crate'')])
     = Inr (JStr ''Crate'')
   \<and> item_cents (JObj [(''price_cents'', JInt 300)]) = Inr (JInt 300)
   \<and> item_qty read_int (JObj [(''amount'', JInt 0)]) = Inr 1"
  using item_fields_first_truthy
      [of "[(''name'', JNull), (''market_hash_name'', JStr ''''), (''title'', JStr ''Crate'')]" read_int]
    item_fields_first_truthy [of "[(''price_cents'', JInt 300)]" read_int]
    item_fields_first_truthy [of "[(''amount'', JInt 0)]" read_int]
  by simp

section \<open>Frame extractor: results\<close>

lemma entry_message_Some:
  "parsed_entry loads entry = Some m \<Longrightarrow> entry_message loads entry = Inr m"
  by (auto simp: parsed_entry_def entry_message_def py_bind_def
        split: json.splits option.splits)

lemma entry_message_None:
  assumes unparsed: "parsed_entry loads entry = None"
  shows "\<exists>e. entry_message loads entry = Inl e"
proof (cases entry)
  case (JObj kvs)
  show ?thesis
  proof (cases "map_of kvs ''message''")
    case None
    then show ?thesis using JObj by (simp add: entry_message_def py_bind_def)
  next
    case (Some mtext)
    note field = Some
    show ?thesis
    proof (cases mtext)
      case (JStr t)
      show ?thesis
      proof (cases "loads t")
        case None
        then show ?thesis using JObj field JStr by (simp add: entry_message_def py_bind_def)
      next
        case (Some outer)
        with unparsed JObj field JStr show ?thesis
          by (cases outer)
             (simp_all add: entry_message_def py_bind_def parsed_entry_def split: option.splits)
      qed
    qed (use JObj field in \<open>simp_all add: entry_message_def py_bind_def\<close>)
  qed
qed (simp_all add: entry_message_def py_bind_def)

lemma perf_loop_map_filter:
  "perf_loop loads out raw = Inr (out @ List.map_filter (parsed_entry loads) raw)"
proof (induction raw arbitrary: out)
  case Nil
  then show ?case by (simp add: map_filter_simps)
next
  case (Cons entry raw)
  show ?case
  proof (cases "parsed_entry loads entry")
    case None
    from entry_message_None [OF this] obtain e where "entry_message loads entry = Inl e" ..
    with None show ?thesis
      by (simp add: try_except_def py_bind_def Cons.IH map_filter_simps)
  next
    case (Some m)
    from entry_message_Some [OF this] Some show ?thesis
      by (simp add: try_except_def py_bind_def Cons.IH map_filter_simps)
  qed
qed

lemma safe_get_perf_map_filter:
  "safe_get_perf loads get_log =
     Inr (case get_log of Inl e \<Rightarrow> [] | Inr raw \<Rightarrow> List.map_filter (parsed_entry loads) raw)"
  by (cases get_log) (simp_all add: safe_get_perf_def perf_loop_map_filter)

lemma map_filter_append:
  "List.map_filter f (xs @ ys) = List.map_filter f xs @ List.map_filter f ys"
  by (simp add: List.map_filter_def)

text \<open>
  C9. \<^verbatim>\<open>safe_get_perf\<close> never raises. It returns, in the order of the log, the
  message of every entry whose text parses to an object with a \<^verbatim>\<open>message\<close> field;
  an entry that does not parse is dropped and changes nothing for the entries before and
  after it.
\<close>

theorem safe_get_perf_isolates:
  "safe_get_perf loads get_log =
     Inr (case get_log of Inl e \<Rightarrow> [] | Inr raw \<Rightarrow> List.map_filter (parsed_entry loads) raw)
   \<and> (parsed_entry loads bad = None \<longrightarrow>
        safe_get_perf loads (Inr (before @ bad # after)) =
          Inr (List.map_filter (parsed_entry loads) before
               @ List.map_filter (parsed_entry loads) after))
   \<and> (parsed_entry loads good = Some m \<longrightarrow>
        safe_get_perf loads (Inr (before @ good # after)) =
          Inr (List.map_filter (parsed_entry loads) before @ m
               # List.map_filter (parsed_entry loads) after))"
  by (simp add: safe_get_perf_map_filter map_filter_append map_filter_simps)

theorem safe_get_perf_isolates_witness:
  \<open>parsed_entry read_json (JObj [(''message'', JStr ''{"message": oops'')]) = None
   \<and> parsed_entry read_json (JObj [(''message'', JStr ''{"message":{"method":"a"}}'')])
       = Some (JObj [(''method'', JStr ''a'')])
   \<and> safe_get_perf read_json
        (Inr [JObj [(''message'', JStr ''{"message":{"method":"a"}}'')],
              JObj [(''message'', JStr ''{"message": oops'')],
              JObj [(''message'', JStr ''{"message":{"method":"b"}}'')]])
       = Inr [JObj [(''method'', JStr ''a'')], JObj [(''method'', JStr ''b'')]]
   \<and> safe_get_perf read_json (Inl WebDriverException) = Inr []\<close>
proof -
  have bad: \<open>parsed_entry read_json (JObj [(''message'', JStr ''{"message": oops'')]) = None\<close>
    by (simp add: parsed_entry_def reader_defs)
  have a: \<open>parsed_entry read_json (JObj [(''message'', JStr ''{"message":{"method":"a"}}'')])
       = Some (JObj [(''method'', JStr ''a'')])\<close>
    by (simp add: parsed_entry_def reader_defs)
  have b: \<open>parsed_entry read_json (JObj [(''message'', JStr ''{"message":{"method":"b"}}'')])
       = Some (JObj [(''method'', JStr ''b'')])\<close>
    by (simp add: parsed_entry_def reader_defs)
  from bad a b
    safe_get_perf_isolates [of read_json "Inl WebDriverException"
      \<open>JObj [(''message'', JStr ''{"message": oops'')]\<close>
      \<open>[JObj [(''message'', JStr ''{"message":{"method":"a"}}'')]]\<close>
      \<open>[JObj [(''message'', JStr ''{"message":{"method":"b"}}'')]]\<close>]
  show ?thesis by (simp add: map_filter_simps)
qed

section \<open>Frame generator: results\<close>

lemma canon_JFloat: "canon (JFloat x) = JFloat (case x of NegZero \<Rightarrow> Fin 0 | _ \<Rightarrow> x)"
  by (cases x) simp_all

lemma py_eq_JStr: "py_eq v (JStr s) \<longleftrightarrow> v = JStr s"
  by (cases v) (auto simp: py_eq_def canon_JFloat)

lemma ws_frame_received:
  "map_of kvs ''method'' = Some (JStr ''Network.webSocketFrameReceived'') \<Longrightarrow>
     ws_frame (JObj kvs) = py_bind (payload_data (JObj kvs)) (\<lambda>p. Inr (Some (''in'', p)))"
  by (simp add: ws_frame_def py_bind_def py_eq_JStr)

lemma ws_frame_sent:
  "map_of kvs ''method'' = Some (JStr ''Network.webSocketFrameSent'') \<Longrightarrow>
     ws_frame (JObj kvs) = py_bind (payload_data (JObj kvs)) (\<lambda>p. Inr (Some (''out'', p)))"
  by (simp add: ws_frame_def py_bind_def py_eq_JStr)

lemma ws_frames_abort:
  "ws_frames ms = (fs, None) \<Longrightarrow> ws_frame m = Inl e \<Longrightarrow>
     ws_frames (ms @ m # rest) = (fs, Some e)"
proof (induction ms arbitrary: fs)
  case Nil
  then show ?case by simp
next
  case (Cons a ms)
  then show ?case
    by (cases "ws_frame a") (auto split: option.splits prod.splits)
qed

text \<open>
  C10. A log entry can parse, carry the method \<^verbatim>\<open>Network.webSocketFrameReceived\<close> or
  \<^verbatim>\<open>Network.webSocketFrameSent\<close>, and lack \<^verbatim>\<open>params.response.payloadData\<close>. For
  such a message the generator raises \<^verbatim>\<open>KeyError\<close> where it could have skipped: the
  frames of the later entries of the poll are not yielded, and the exception leaves the
  loop body of that poll.
\<close>

theorem iter_ws_frames_raises:
  "(map_of kvs ''method'' = Some (JStr ''Network.webSocketFrameReceived'') \<or>
    map_of kvs ''method'' = Some (JStr ''Network.webSocketFrameSent'')) \<and>
   map_of kvs ''params'' = None \<and>
   parsed_entry loads entry = Some (JObj kvs) \<and>
   iter_ws_frames loads (Inr before) = (fs, None) \<and>
   handle_frames loads sf si fr st fs = Inr st'
   \<longrightarrow> ws_frame (JObj kvs) = Inl KeyError
     \<and> iter_ws_frames loads (Inr (before @ entry # after)) = (fs, Some KeyError)
     \<and> poll loads sf si fr st (Inr (before @ entry # after)) = Inl KeyError"
proof (intro impI)
  assume a: "(map_of kvs ''method'' = Some (JStr ''Network.webSocketFrameReceived'') \<or>
    map_of kvs ''method'' = Some (JStr ''Network.webSocketFrameSent'')) \<and>
   map_of kvs ''params'' = None \<and>
   parsed_entry loads entry = Some (JObj kvs) \<and>
   iter_ws_frames loads (Inr before) = (fs, None) \<and>
   handle_frames loads sf si fr st fs = Inr st'"
  then have frame: "ws_frame (JObj kvs) = Inl KeyError"
    by (auto simp: ws_frame_received ws_frame_sent payload_data_def py_bind_def)
  from a have "ws_frames (List.map_filter (parsed_entry loads) before) = (fs, None)"
    by (simp add: iter_ws_frames_def safe_get_perf_map_filter)
  from ws_frames_abort [OF this frame]
  have "ws_frames (List.map_filter (parsed_entry loads) (before @ entry # after)) = (fs, Some KeyError)"
    using a by (simp add: map_filter_append map_filter_simps)
  then have iter: "iter_ws_frames loads (Inr (before @ entry # after)) = (fs, Some KeyError)"
    by (simp add: iter_ws_frames_def safe_get_perf_map_filter)
  with a have "poll loads sf si fr st (Inr (before @ entry # after)) = Inl KeyError"
    by (simp add: poll_def py_bind_def)
  with frame iter show "ws_frame (JObj kvs) = Inl KeyError
     \<and> iter_ws_frames loads (Inr (before @ entry # after)) = (fs, Some KeyError)
     \<and> poll loads sf si fr st (Inr (before @ entry # after)) = Inl KeyError"
    by simp
qed

text \<open>
  The instance: the entry follows nothing and precedes a well-formed frame, which is
  never yielded.
\<close>

theorem iter_ws_frames_raises_witness:
  \<open>map_of [(''method'', JStr ''Network.webSocketFrameReceived'')] ''method''
     = Some (JStr ''Network.webSocketFrameReceived'')
   \<and> map_of [(''method'', JStr ''Network.webSocketFrameReceived'')] ''params'' = None
   \<and> parsed_entry read_json
        (JObj [(''message'', JStr ''{"message":{"method":"Network.webSocketFrameReceived"}}'')])
       = Some (JObj [(''method'', JStr ''Network.webSocketFrameReceived'')])
   \<and> iter_ws_frames read_json (Inr []) = ([], None)
   \<and> handle_frames read_json read_float read_int repr_integral
        \<lparr>seen = [], inv = [], printed = [], saved = []\<rparr> []
       = Inr \<lparr>seen = [], inv = [], printed = [], saved = []\<rparr>
   \<and> iter_ws_frames read_json
        (Inr [JObj [(''message'', JStr ''{"message":{"method":"Network.webSocketFrameReceived"}}'')],
              JObj [(''message'', JStr ''{"message":{"method":"Network.webSocketFrameSent","params":{"response":{"payloadData":"2"}}}}'')]])
       = ([], Some KeyError)
   \<and> poll read_json read_float read_int repr_integral
        \<lparr>seen = [], inv = [], printed = [], saved = []\<rparr>
        (Inr [JObj [(''message'', JStr ''{"message":{"method":"Network.webSocketFrameReceived"}}'')],
              JObj [(''message'', JStr ''{"message":{"method":"Network.webSocketFrameSent","params":{"response":{"payloadData":"2"}}}}'')]])
       = Inl KeyError\<close>
proof -
  have p: \<open>parsed_entry read_json
        (JObj [(''message'', JStr ''{"message":{"method":"Network.webSocketFrameReceived"}}'')])
       = Some (JObj [(''method'', JStr ''Network.webSocketFrameReceived'')])\<close>
    by (simp add: parsed_entry_def reader_defs)
  have i: "iter_ws_frames read_json (Inr []) = ([], None)"
    by (simp add: iter_ws_frames_def safe_get_perf_def)
  from p i
    iter_ws_frames_raises [of "[(''method'', JStr ''Network.webSocketFrameReceived'')]" read_json
      \<open>JObj [(''message'', JStr ''{"message":{"method":"Network.webSocketFrameReceived"}}'')]\<close>
      "[]" "[]" read_float read_int repr_integral
      "\<lparr>seen = [], inv = [], printed = [], saved = []\<rparr>"
      "\<lparr>seen = [], inv = [], printed = [], saved = []\<rparr>"
      \<open>[JObj [(''message'', JStr ''{"message":{"method":"Network.webSocketFrameSent","params":{"response":{"payloadData":"2"}}}}'')]]\<close>]
  show ?thesis by simp
qed

section \<open>Dedup filter: results\<close>

lemma drop_one_tl: "drop (Suc 0) xs = tl xs"
  by (simp add: drop_Suc)

lemma deque_append_drop:
  assumes "length xs \<le> n"
  shows "deque_append n xs x = drop (length xs + 1 - n) (xs @ [x])"
proof (cases "length xs = n")
  case True
  then have "length xs + 1 - n = Suc 0" by simp
  then have "drop (length xs + 1 - n) (xs @ [x]) = tl (xs @ [x])"
    by (simp only: drop_one_tl)
  moreover have "deque_append n xs x = tl (xs @ [x])"
    using True by (simp add: deque_append_def Let_def)
  ultimately show ?thesis by simp
next
  case False
  with assms have "length xs + 1 - n = 0" by simp
  then have "drop (length xs + 1 - n) (xs @ [x]) = xs @ [x]"
    by (simp only: drop_0)
  moreover have "deque_append n xs x = xs @ [x]"
    using False assms by (simp add: deque_append_def Let_def)
  ultimately show ?thesis by simp
qed

lemma deque_foldl_drop:
  "length xs \<le> n \<Longrightarrow>
     foldl (deque_append n) xs ys = drop (length xs + length ys - n) (xs @ ys)"
proof (induction ys arbitrary: xs)
  case Nil
  then show ?case by simp
next
  case (Cons y ys)
  show ?case
  proof (cases "length xs = n")
    case True
    then have x': "deque_append n xs y = tl (xs @ [y])"
      by (simp add: deque_append_def Let_def)
    then have len: "length (deque_append n xs y) = n"
      using True by simp
    then have "foldl (deque_append n) (deque_append n xs y) ys
        = drop (n + length ys - n) (tl (xs @ [y]) @ ys)"
      using Cons.IH [of "deque_append n xs y"] x' by simp
    also have "tl (xs @ [y]) @ ys = tl (xs @ y # ys)"
      by (cases xs) simp_all
    also have "drop (n + length ys - n) (tl (xs @ y # ys)) = drop (Suc (length ys)) (xs @ y # ys)"
      by (simp only: drop_Suc add_diff_cancel_left')
    finally show ?thesis using True by simp
  next
    case False
    with Cons.prems have lt: "length xs < n" by simp
    then have x': "deque_append n xs y = xs @ [y]"
      by (simp add: deque_append_def Let_def)
    from lt have "length (xs @ [y]) \<le> n" by simp
    from Cons.IH [OF this] x' show ?thesis by simp
  qed
qed

lemma seen_append_length:
  "length sn \<le> seen_maxlen \<Longrightarrow> length (seen_append sn sg) \<le> seen_maxlen"
  by (simp add: seen_append_def deque_append_drop)

lemma seen_foldl_drop:
  "foldl seen_append [] sgs = drop (length sgs - seen_maxlen) sgs"
proof -
  have "seen_append = deque_append seen_maxlen"
    by (intro ext) (simp add: seen_append_def)
  then show ?thesis
    using deque_foldl_drop [of "[]" seen_maxlen sgs] by simp
qed

lemma sig_eq_refl: "sig_eq sg sg"
  by (cases sg) (simp add: sig_eq_def py_eq_def)

lemma sig_in_member: "sg \<in> set sgs \<Longrightarrow> sig_in sg sgs"
  by (auto simp: sig_in_def list_ex_iff intro: sig_eq_refl)

lemma handle_event_seen_length:
  "length (seen st) \<le> seen_maxlen \<Longrightarrow> handle_event sf si fr st ev = Inr st' \<Longrightarrow>
     length (seen st') \<le> seen_maxlen"
  by (auto simp: handle_event_def Let_def py_bind_def seen_append_length
        split: if_splits sum.splits)

lemma sig_in_numbered: "sig_in (numbered_sig i) (map numbered_sig xs) \<longleftrightarrow> i \<in> set xs"
  by (auto simp: sig_in_def list_ex_iff numbered_sig_def sig_eq_def py_eq_def)

lemma sigs_distinct_numbered: "sigs_distinct (map numbered_sig xs) \<longleftrightarrow> distinct xs"
  by (induction xs) (simp_all add: sig_in_numbered)

text \<open>
  C7. The filter \<^verbatim>\<open>seen\<close> has capacity 2000 and never holds more; it drops its
  oldest signature first. After 2001 pairwise different signatures have been appended to
  the empty filter, the first of them is no longer found in it and the 2000 others are.
\<close>

theorem seen_bounded_oldest_first:
  "seen_maxlen = 2000
   \<and> (length sn \<le> seen_maxlen \<longrightarrow> length (seen_append sn sg) \<le> seen_maxlen)
   \<and> (length (seen st) \<le> seen_maxlen \<and> handle_event sf si fr st ev = Inr st' \<longrightarrow>
        length (seen st') \<le> seen_maxlen)
   \<and> length (foldl seen_append [] sgs) \<le> seen_maxlen
   \<and> (length sgs = seen_maxlen + 1 \<and> sigs_distinct sgs \<longrightarrow>
        foldl seen_append [] sgs = tl sgs
        \<and> \<not> sig_in (hd sgs) (foldl seen_append [] sgs)
        \<and> (\<forall>s \<in> set (tl sgs). sig_in s (foldl seen_append [] sgs)))"
proof (intro conjI impI)
  show "seen_maxlen = 2000" by (simp add: seen_maxlen_def)
  show "length (foldl seen_append [] sgs) \<le> seen_maxlen"
    by (simp add: seen_foldl_drop)
next
  assume "length sn \<le> seen_maxlen"
  then show "length (seen_append sn sg) \<le> seen_maxlen" by (rule seen_append_length)
next
  assume "length (seen st) \<le> seen_maxlen \<and> handle_event sf si fr st ev = Inr st'"
  then show "length (seen st') \<le> seen_maxlen"
    using handle_event_seen_length by blast
next
  assume a: "length sgs = seen_maxlen + 1 \<and> sigs_distinct sgs"
  then obtain s0 rest where sgs: "sgs = s0 # rest" by (cases sgs) auto
  from a have "length sgs - seen_maxlen = Suc 0" by simp
  then have "drop (length sgs - seen_maxlen) sgs = tl sgs"
    by (simp only: drop_one_tl)
  then have eq: "foldl seen_append [] sgs = rest"
    using sgs by (simp only: seen_foldl_drop list.sel)
  show "foldl seen_append [] sgs = tl sgs" using eq sgs by simp
  show "\<not> sig_in (hd sgs) (foldl seen_append [] sgs)" using eq sgs a by simp
  show "\<forall>s \<in> set (tl sgs). sig_in s (foldl seen_append [] sgs)"
    using eq sgs by (simp add: sig_in_member)
qed

text \<open>The instance at the signatures of the events \<^verbatim>\<open>42[0]\<close> to \<^verbatim>\<open>42[2000]\<close>.\<close>

theorem seen_bounded_oldest_first_witness:
  "length (map numbered_sig [0..<2001]) = seen_maxlen + 1
   \<and> sigs_distinct (map numbered_sig [0..<2001])
   \<and> \<not> sig_in (numbered_sig 0) (foldl seen_append [] (map numbered_sig [0..<2001]))
   \<and> sig_in (numbered_sig 1) (foldl seen_append [] (map numbered_sig [0..<2001]))
   \<and> sig_in (numbered_sig 2000) (foldl seen_append [] (map numbered_sig [0..<2001]))
   \<and> length (foldl seen_append [] (map numbered_sig [0..<2001])) \<le> seen_maxlen"
proof -
  have l: "length (map numbered_sig [0..<2001]) = seen_maxlen + 1"
    by (simp add: seen_maxlen_def)
  have d: "sigs_distinct (map numbered_sig [0..<2001])"
    by (simp add: sigs_distinct_numbered)
  have u: "[0..<2001] = 0 # [1..<2001]"
    by (subst upt_rec) simp
  have h: "hd (map numbered_sig [0..<2001]) = numbered_sig 0"
    by (subst u) simp
  have t: "tl (map numbered_sig [0..<2001]) = map numbered_sig [1..<2001]"
    by (subst u) simp
  have m: "numbered_sig 1 \<in> set (map numbered_sig [1..<2001])"
    "numbered_sig 2000 \<in> set (map numbered_sig [1..<2001])"
    by simp_all
  from seen_bounded_oldest_first [of "[]" "numbered_sig 0" initial_state read_float read_int
      repr_integral ping_event initial_state "map numbered_sig [0..<2001]"] l d
  have "\<not> sig_in (hd (map numbered_sig [0..<2001])) (foldl seen_append [] (map numbered_sig [0..<2001]))"
    and "\<forall>s \<in> set (tl (map numbered_sig [0..<2001])).
           sig_in s (foldl seen_append [] (map numbered_sig [0..<2001]))"
    and "length (foldl seen_append [] (map numbered_sig [0..<2001])) \<le> seen_maxlen"
    by blast+
  with l d m show ?thesis
    unfolding h t by blast
qed

section \<open>Signatures: results\<close>

lemma map_insort_key: "map f (insort_key f x xs) = insort (f x) (map f xs)"
  by (induction xs) simp_all

lemma map_sort_key: "map f (sort_key f xs) = sort (map f xs)"
  by (induction xs) (simp_all add: map_insort_key)

lemma distinct_keys_expand:
  "distinct (map fst kvs) \<Longrightarrow> kvs = map (\<lambda>k. (k, the (map_of kvs k))) (map fst kvs)"
proof (induction kvs)
  case Nil
  then show ?case by simp
next
  case (Cons kv kvs)
  obtain k v where kv: "kv = (k, v)" by (cases kv)
  from Cons.prems kv have notin: "k \<notin> fst ` set kvs" and d: "distinct (map fst kvs)"
    by simp_all
  have "map (\<lambda>k'. (k', the (map_of (kv # kvs) k'))) (map fst kvs)
      = map (\<lambda>k'. (k', the (map_of kvs k'))) (map fst kvs)"
    using notin kv by (intro map_cong) auto
  with Cons.IH [OF d] kv show ?case by simp
qed

lemma sort_key_by_keys:
  assumes "distinct (map fst kvs)"
  shows "sort_key fst kvs = map (\<lambda>k. (k, the (map_of kvs k))) (sort (map fst kvs))"
proof -
  let ?ys = "sort_key fst kvs"
  have keys: "map fst ?ys = sort (map fst kvs)" by (rule map_sort_key)
  with assms have d: "distinct (map fst ?ys)" by simp
  have "map_of ?ys = map_of kvs"
    using d assms by (simp add: map_of_inject_set)
  with distinct_keys_expand [OF d] keys show ?thesis by simp
qed

lemma same_keys:
  assumes d: "distinct (map fst kvs)" and d': "distinct (map fst kvs')"
    and len: "length kvs = length kvs'"
    and sub: "\<And>k v. (k, v) \<in> set kvs \<Longrightarrow> map_of kvs' k \<noteq> None"
  shows "sort (map fst kvs) = sort (map fst kvs')"
proof -
  have "fst ` set kvs \<subseteq> fst ` set kvs'"
    using sub by (fastforce simp: map_of_eq_None_iff)
  moreover have "card (fst ` set kvs) = card (fst ` set kvs')"
    using distinct_card [OF d] distinct_card [OF d'] len by simp
  ultimately have "fst ` set kvs = fst ` set kvs'"
    by (intro card_subset_eq) simp_all
  then have "set (sort (map fst kvs)) = set (sort (map fst kvs'))" by simp
  moreover have "distinct (sort (map fst kvs))" "distinct (sort (map fst kvs'))"
    using d d' by simp_all
  ultimately show ?thesis
    by (intro sorted_distinct_set_unique) simp_all
qed

lemma list_all2_map_eq:
  "list_all2 P xs ys \<Longrightarrow> (\<And>x y. x \<in> set xs \<Longrightarrow> y \<in> set ys \<Longrightarrow> P x y \<Longrightarrow> f x = f y) \<Longrightarrow>
     map f xs = map f ys"
  by (induction rule: list_all2_induct) simp_all

lemma dumps_same_content:
  "wf_json a \<Longrightarrow> wf_json b \<Longrightarrow> same_content a b \<Longrightarrow> dumps fr a = dumps fr b"
proof (induction a b rule: same_content.induct)
  case (1 xs ys)
  have "map (dumps fr) xs = map (dumps fr) ys"
  proof (rule list_all2_map_eq)
    show "list_all2 same_content xs ys" using "1.prems" by simp
  next
    fix x y assume "x \<in> set xs" "y \<in> set ys" "same_content x y"
    then show "dumps fr x = dumps fr y"
      using "1.IH" "1.prems" by simp
  qed
  then show ?case by simp
next
  case (2 kvs kvs')
  from "2.prems" have d: "distinct (map fst kvs)" and d': "distinct (map fst kvs')"
    and len: "length kvs = length kvs'"
    and each: "\<forall>(k, v) \<in> set kvs.
                 case map_of kvs' k of None \<Rightarrow> False | Some v' \<Rightarrow> same_content v v'"
    by simp_all
  have sc: "\<exists>v'. map_of kvs' k = Some v' \<and> same_content v v'" if "(k, v) \<in> set kvs" for k v
  proof -
    from each that
    have "case map_of kvs' k of None \<Rightarrow> False | Some v' \<Rightarrow> same_content v v'" by blast
    then show ?thesis by (cases "map_of kvs' k") simp_all
  qed
  have keys: "sort (map fst kvs) = sort (map fst kvs')"
    using d d' len sc by (intro same_keys) auto
  have vals: "dumps fr (the (map_of kvs k)) = dumps fr (the (map_of kvs' k))"
    if "k \<in> set (sort (map fst kvs))" for k
  proof -
    from that obtain v where v: "(k, v) \<in> set kvs" by auto
    with d have mk: "map_of kvs k = Some v" by simp
    from sc [OF v] obtain v' where v': "map_of kvs' k = Some v'" "same_content v v'" by blast
    from v' have "(k, v') \<in> set kvs'" by (simp add: map_of_SomeD)
    then have "wf_json v'" using "2.prems" by force
    moreover have "wf_json v" using v "2.prems" by force
    ultimately have "dumps fr v = dumps fr v'"
      using "2.IH" [OF v refl v'(1)] v'(2) by simp
    with mk v' show ?thesis by simp
  qed
  have "map (\<lambda>(k, v). encode_basestring k @ '': '' @ dumps fr v) (sort_key fst kvs)
      = map (\<lambda>k. encode_basestring k @ '': '' @ dumps fr (the (map_of kvs k))) (sort (map fst kvs))"
    by (simp add: sort_key_by_keys [OF d] comp_def)
  also have "\<dots> = map (\<lambda>k. encode_basestring k @ '': '' @ dumps fr (the (map_of kvs' k)))
                     (sort (map fst kvs))"
    using vals by (intro map_cong) simp_all
  also have "\<dots> = map (\<lambda>(k, v). encode_basestring k @ '': '' @ dumps fr v) (sort_key fst kvs')"
    by (simp add: sort_key_by_keys [OF d'] comp_def keys)
  finally show ?case by simp
qed simp_all

lemma event_sig_same_content:
  "wf_json (JArr args) \<Longrightarrow> wf_json (JArr args') \<Longrightarrow> same_content (JArr args) (JArr args') \<Longrightarrow>
     event_sig fr (d, n, args) = event_sig fr (d, n, args')"
  using dumps_same_content [of "JArr args" "JArr args'" fr] by (simp add: event_sig_def)

section \<open>Dedup in the loop body: results\<close>

lemma sig_eq_sym: "sig_eq a b \<Longrightarrow> sig_eq b a"
  by (cases a, cases b) (auto simp: sig_eq_def py_eq_def)

lemma sig_in_mono: "sig_in sg xs \<Longrightarrow> set xs \<subseteq> set ys \<Longrightarrow> sig_in sg ys"
  by (auto simp: sig_in_def list_ex_iff)

lemma sig_in_take: "sig_in sg (take k xs) \<Longrightarrow> sig_in sg xs"
  by (erule sig_in_mono) (rule set_take_subset)

lemma sig_in_take_Suc: "sig_in sg (take k xs) \<Longrightarrow> sig_in sg (take (Suc k) xs)"
  by (erule sig_in_mono) (rule set_take_subset_set_take, simp)

lemma handle_event_skip:
  "sig_in (event_sig fr ev) (seen st) \<Longrightarrow> handle_event sf si fr st ev = Inr st"
  by (simp add: handle_event_def)

lemma handle_event_seen:
  "handle_event sf si fr st ev = Inr st' \<Longrightarrow>
     seen st' = (if sig_in (event_sig fr ev) (seen st) then seen st
                 else seen_append (seen st) (event_sig fr ev))"
  by (auto simp: handle_event_def Let_def py_bind_def split: if_splits sum.splits)

lemma rev_seen_append:
  assumes "sn \<noteq> [] \<or> 0 < seen_maxlen"
  shows "rev (seen_append sn x) =
           (if seen_maxlen \<le> length sn then x # butlast (rev sn) else x # rev sn)"
proof (cases "seen_maxlen \<le> length sn")
  case True
  with assms have "sn \<noteq> []" by auto
  then have "tl (sn @ [x]) = tl sn @ [x]" by (cases sn) simp_all
  moreover have "rev (tl sn) = butlast (rev sn)" by (cases sn) simp_all
  ultimately show ?thesis using True
    by (simp add: seen_append_def deque_append_def Let_def)
next
  case False
  then show ?thesis by (simp add: seen_append_def deque_append_def Let_def)
qed

lemma seen_append_recent:
  assumes "sig_in sg (take k (rev sn))" and "k < seen_maxlen"
  shows "sig_in sg (take (Suc k) (rev (seen_append sn x)))"
proof -
  from assms(1) have ne: "sn \<noteq> []" by (auto simp: sig_in_def)
  show ?thesis
  proof (cases "seen_maxlen \<le> length sn")
    case True
    with assms(2) have "k < length (rev sn)" by simp
    then have "take k (butlast (rev sn)) = take k (rev sn)" by (rule take_butlast)
    with assms(1) True ne show ?thesis
      by (simp add: rev_seen_append sig_in_def)
  next
    case False
    with assms(1) ne show ?thesis
      by (simp add: rev_seen_append sig_in_def)
  qed
qed

lemma seen_append_newest:
  "0 < seen_maxlen \<Longrightarrow> sig_in sg (take (Suc 0) (rev (seen_append sn sg)))"
  by (simp add: rev_seen_append sig_in_def sig_eq_refl)

lemma handle_event_recent:
  assumes "sig_in sg (take k (rev (seen st)))" and "k < seen_maxlen"
    and "handle_event sf si fr st ev = Inr st'"
  shows "sig_in sg (take (Suc k) (rev (seen st')))"
  using handle_event_seen [OF assms(3)] assms(1,2)
  by (auto simp: seen_append_recent sig_in_take_Suc split: if_splits)

lemma handle_events_recent:
  "sig_in sg (take k (rev (seen st))) \<Longrightarrow> k + length evs \<le> seen_maxlen \<Longrightarrow>
   handle_events sf si fr st evs = Inr st' \<Longrightarrow>
     sig_in sg (take (k + length evs) (rev (seen st')))"
proof (induction evs arbitrary: st k)
  case Nil
  then show ?case by simp
next
  case (Cons ev evs)
  from Cons.prems(3) obtain st1 where
    one: "handle_event sf si fr st ev = Inr st1" and
    rest: "handle_events sf si fr st1 evs = Inr st'"
    by (auto simp: py_bind_def split: sum.splits)
  from Cons.prems(2) have "k < seen_maxlen" by simp
  from handle_event_recent [OF Cons.prems(1) this one]
  have "sig_in sg (take (Suc k) (rev (seen st1)))" .
  from Cons.IH [OF this _ rest] Cons.prems(2) show ?case by simp
qed

lemma handle_event_newest:
  assumes "\<not> sig_in (event_sig fr ev) (seen st)" and "handle_event sf si fr st ev = Inr st1"
  shows "sig_in (event_sig fr ev) (take (Suc 0) (rev (seen st1)))"
  using handle_event_seen [OF assms(2)] assms(1)
  by (simp add: seen_append_newest seen_maxlen_def)

lemma handle_event_remembers:
  assumes "handle_event sf si fr st ev = Inr st1"
  shows "sig_in (event_sig fr ev) (seen st1)"
proof (cases "sig_in (event_sig fr ev) (seen st)")
  case True
  then show ?thesis using handle_event_seen [OF assms] by simp
next
  case False
  from handle_event_newest [OF False assms]
  have "sig_in (event_sig fr ev) (rev (seen st1))" by (rule sig_in_take)
  then show ?thesis by (simp add: sig_in_def list_ex_iff)
qed

lemma skipped_within_window:
  assumes same: "event_sig fr ev' = event_sig fr ev"
    and fresh: "\<not> sig_in (event_sig fr ev) (seen st)"
    and first: "handle_event sf si fr st ev = Inr st1"
    and between: "handle_events sf si fr st1 evs = Inr st2"
    and window: "length evs < seen_maxlen"
  shows "handle_event sf si fr st2 ev' = Inr st2"
proof -
  from handle_event_newest [OF fresh first]
  have "sig_in (event_sig fr ev) (take (Suc 0) (rev (seen st1)))" .
  from handle_events_recent [OF this _ between] window
  have "sig_in (event_sig fr ev) (take (Suc 0 + length evs) (rev (seen st2)))" by simp
  then have "sig_in (event_sig fr ev) (rev (seen st2))" by (rule sig_in_take)
  then have "sig_in (event_sig fr ev') (seen st2)"
    using same by (simp add: sig_in_def list_ex_iff)
  then show ?thesis by (rule handle_event_skip)
qed

lemma handle_events_append:
  "handle_events sf si fr st (xs @ ys) =
     py_bind (handle_events sf si fr st xs) (\<lambda>st'. handle_events sf si fr st' ys)"
proof (induction xs arbitrary: st)
  case Nil
  then show ?case by (simp add: py_bind_def)
next
  case (Cons x xs)
  then show ?case
    by (cases "handle_event sf si fr st x") (simp_all add: py_bind_def)
qed

lemma handle_event_plain:
  "snd (snd ev) = [] \<Longrightarrow> \<not> sig_in (event_sig fr ev) (seen st) \<Longrightarrow>
     handle_event sf si fr st ev =
       Inr (st\<lparr>seen := seen_append (seen st) (event_sig fr ev), printed := printed st @ [ev]\<rparr>)"
  by (simp add: handle_event_def Let_def try_extract_inventory_def py_bind_def)

lemma sig_in_seen_append:
  "sig_in sg (seen_append sn x) \<Longrightarrow> sig_in sg sn \<or> sig_eq sg x"
proof -
  have "set (seen_append sn x) \<subseteq> insert x (set sn)"
    by (cases sn) (auto simp: seen_append_def deque_append_def Let_def dest: list.set_sel(2))
  then show "sig_in sg (seen_append sn x) \<Longrightarrow> sig_in sg sn \<or> sig_eq sg x"
    by (auto simp: sig_in_def list_ex_iff)
qed

lemma handle_events_fresh:
  "(\<forall>ev \<in> set evs. snd (snd ev) = []) \<Longrightarrow> sigs_distinct (map (event_sig fr) evs) \<Longrightarrow>
   (\<forall>ev \<in> set evs. \<not> sig_in (event_sig fr ev) (seen st)) \<Longrightarrow>
     handle_events sf si fr st evs =
       Inr (st\<lparr>seen := foldl seen_append (seen st) (map (event_sig fr) evs),
               printed := printed st @ evs\<rparr>)"
proof (induction evs arbitrary: st)
  case Nil
  then show ?case by simp
next
  case (Cons ev evs)
  let ?st1 = "st\<lparr>seen := seen_append (seen st) (event_sig fr ev), printed := printed st @ [ev]\<rparr>"
  from Cons.prems have one: "handle_event sf si fr st ev = Inr ?st1"
    by (intro handle_event_plain) simp_all
  have fresh: "\<forall>ev' \<in> set evs. \<not> sig_in (event_sig fr ev') (seen ?st1)"
  proof
    fix ev' assume in_evs: "ev' \<in> set evs"
    show "\<not> sig_in (event_sig fr ev') (seen ?st1)"
    proof
      assume "sig_in (event_sig fr ev') (seen ?st1)"
      then have "sig_in (event_sig fr ev') (seen st) \<or> sig_eq (event_sig fr ev') (event_sig fr ev)"
        using sig_in_seen_append by simp
      moreover have "\<not> sig_in (event_sig fr ev') (seen st)"
        using Cons.prems(3) in_evs by simp
      moreover have "\<not> sig_eq (event_sig fr ev) (event_sig fr ev')"
        using Cons.prems(2) in_evs by (auto simp: sig_in_def list_ex_iff)
      ultimately show False using sig_eq_sym by blast
    qed
  qed
  from Cons.prems have "\<forall>ev \<in> set evs. snd (snd ev) = []"
    and "sigs_distinct (map (event_sig fr) evs)" by simp_all
  from Cons.IH [OF this fresh] one show ?case
    by (simp add: py_bind_def)
qed

lemma event_sig_numbered: "event_sig fr (numbered_event i) = numbered_sig i"
  by (simp add: event_sig_def numbered_event_def numbered_sig_def)

lemma event_sig_ping: "event_sig fr ping_event = (''in'', JStr ''ping'', ''[]'')"
  by (simp add: event_sig_def ping_event_def)

lemma ping_not_numbered: "\<not> sig_in (''in'', JStr ''ping'', ''[]'') (map numbered_sig xs)"
  by (simp add: sig_in_def list_ex_iff numbered_sig_def sig_eq_def py_eq_def)

lemma ping_evicted:
  "handle_events sf si fr initial_state (ping_event # map numbered_event [0..<2000]) =
     Inr \<lparr>seen = map numbered_sig [0..<2000], inv = [],
          printed = ping_event # map numbered_event [0..<2000], saved = []\<rparr>"
proof -
  let ?evs = "ping_event # map numbered_event [0..<2000]"
  have sigs: "map (event_sig fr) ?evs = (''in'', JStr ''ping'', ''[]'') # map numbered_sig [0..<2000]"
    by (simp add: event_sig_numbered event_sig_ping comp_def)
  have "\<forall>ev \<in> set ?evs. snd (snd ev) = []"
    by (auto simp: ping_event_def numbered_event_def)
  moreover have "sigs_distinct (map (event_sig fr) ?evs)"
    unfolding sigs by (simp add: ping_not_numbered sigs_distinct_numbered)
  moreover have "\<forall>ev \<in> set ?evs. \<not> sig_in (event_sig fr ev) (seen initial_state)"
    by (simp add: initial_state_def sig_in_def)
  ultimately have "handle_events sf si fr initial_state ?evs =
       Inr (initial_state\<lparr>seen := foldl seen_append (seen initial_state) (map (event_sig fr) ?evs),
               printed := printed initial_state @ ?evs\<rparr>)"
    by (rule handle_events_fresh)
  moreover have "foldl seen_append [] (map (event_sig fr) ?evs) = map numbered_sig [0..<2000]"
    unfolding sigs seen_foldl_drop by (simp add: seen_maxlen_def)
  ultimately show ?thesis by (simp add: initial_state_def)
qed

lemma ping_again:
  "handle_event sf si fr
     \<lparr>seen = map numbered_sig [0..<2000], inv = [],
       printed = ping_event # map numbered_event [0..<2000], saved = []\<rparr> ping_event
   = Inr \<lparr>seen = seen_append (map numbered_sig [0..<2000]) (event_sig fr ping_event), inv = [],
          printed = (ping_event # map numbered_event [0..<2000]) @ [ping_event], saved = []\<rparr>"
  by (subst handle_event_plain)
     (simp_all add: ping_event_def event_sig_ping [unfolded ping_event_def] ping_not_numbered)

lemma handle_event_cases:
  assumes "handle_event sf si fr st ev = Inr st'"
  shows "(sig_in (event_sig fr ev) (seen st) \<and> st' = st) \<or>
         (\<not> sig_in (event_sig fr ev) (seen st) \<and> printed st' = printed st @ [ev] \<and>
          seen st' = seen_append (seen st) (event_sig fr ev))"
  using assms
  by (auto simp: handle_event_def Let_def py_bind_def split: if_splits sum.splits)

lemma handle_events_processed:
  "handle_events sf si fr st evs = Inr st' \<Longrightarrow>
     \<exists>ps. printed st' = printed st @ ps
        \<and> seen st' = foldl seen_append (seen st) (map (event_sig fr) ps)
        \<and> set ps \<subseteq> set evs"
proof (induction evs arbitrary: st)
  case Nil
  then show ?case by simp
next
  case (Cons ev evs)
  from Cons.prems obtain st1 where
    one: "handle_event sf si fr st ev = Inr st1" and
    rest: "handle_events sf si fr st1 evs = Inr st'"
    by (auto simp: py_bind_def split: sum.splits)
  from Cons.IH [OF rest] obtain ps where
    ps: "printed st' = printed st1 @ ps"
      "seen st' = foldl seen_append (seen st1) (map (event_sig fr) ps)"
      "set ps \<subseteq> set evs"
    by blast
  from handle_event_cases [OF one] show ?case
  proof
    assume "sig_in (event_sig fr ev) (seen st) \<and> st1 = st"
    with ps show ?thesis by (intro exI [of _ ps]) auto
  next
    assume "\<not> sig_in (event_sig fr ev) (seen st) \<and> printed st1 = printed st @ [ev] \<and>
          seen st1 = seen_append (seen st) (event_sig fr ev)"
    with ps show ?thesis by (intro exI [of _ "ev # ps"]) auto
  qed
qed

lemma seen_foldl_drop_from:
  "length sn \<le> seen_maxlen \<Longrightarrow>
     foldl seen_append sn sgs = drop (length sn + length sgs - seen_maxlen) (sn @ sgs)"
proof -
  have "seen_append = deque_append seen_maxlen"
    by (intro ext) (simp add: seen_append_def)
  then show "length sn \<le> seen_maxlen \<Longrightarrow>
     foldl seen_append sn sgs = drop (length sn + length sgs - seen_maxlen) (sn @ sgs)"
    using deque_foldl_drop [of sn seen_maxlen sgs] by simp
qed

lemma evicted_after_window:
  assumes len: "length (seen st1) \<le> seen_maxlen"
    and run: "handle_events sf si fr st1 evs = Inr st2"
    and other: "\<forall>e \<in> set evs. \<not> sig_eq sg (event_sig fr e)"
    and many: "length (printed st1) + seen_maxlen \<le> length (printed st2)"
  shows "\<not> sig_in sg (seen st2)"
proof -
  from handle_events_processed [OF run] obtain ps where
    ps: "printed st2 = printed st1 @ ps"
      "seen st2 = foldl seen_append (seen st1) (map (event_sig fr) ps)"
      "set ps \<subseteq> set evs"
    by blast
  from ps(1) many have k: "seen_maxlen \<le> length ps" by simp
  have "seen st2 = drop (length (seen st1) + length ps - seen_maxlen)
                     (seen st1 @ map (event_sig fr) ps)"
    using ps(2) seen_foldl_drop_from [OF len, of "map (event_sig fr) ps"] by simp
  also have "\<dots> = drop (length ps - seen_maxlen) (map (event_sig fr) ps)"
    using k by simp
  finally have sub: "set (seen st2) \<subseteq> event_sig fr ` set ps"
    using set_drop_subset [of "length ps - seen_maxlen" "map (event_sig fr) ps"] by simp
  show ?thesis
  proof
    assume "sig_in sg (seen st2)"
    then obtain x where x: "x \<in> set (seen st2)" "sig_eq sg x"
      by (auto simp: sig_in_def list_ex_iff)
    with sub obtain e where "e \<in> set ps" "x = event_sig fr e" by blast
    with ps(3) other x(2) show False by blast
  qed
qed

text \<open>
  C6 as stated fails: the filter remembers 2000 signatures. When 2000 other events have
  been handled since an event, its signature has left the filter, and an event equal to
  it is handled again: here \<^verbatim>\<open>42["ping"]\<close> is printed twice.
\<close>

theorem evicted_event_processed_again:
  "map_sum id printed
     (handle_events read_float read_int repr_integral initial_state
        ((ping_event # map numbered_event [0..<2000]) @ [ping_event]))
   = Inr ((ping_event # map numbered_event [0..<2000]) @ [ping_event])"
proof -
  note again = ping_again [of read_float read_int repr_integral]
  have single: "handle_events sf si fr st [ev] = handle_event sf si fr st ev" for sf si fr st ev
    by (cases "handle_event sf si fr st ev") (simp_all add: py_bind_def)
  have "handle_events read_float read_int repr_integral initial_state
          ((ping_event # map numbered_event [0..<2000]) @ [ping_event])
        = py_bind (handle_events read_float read_int repr_integral initial_state
                     (ping_event # map numbered_event [0..<2000]))
            (\<lambda>st'. handle_events read_float read_int repr_integral st' [ping_event])"
    by (rule handle_events_append)
  also have "\<dots> = handle_events read_float read_int repr_integral
          \<lparr>seen = map numbered_sig [0..<2000], inv = [],
            printed = ping_event # map numbered_event [0..<2000], saved = []\<rparr> [ping_event]"
    by (simp only: ping_evicted py_bind_def sum.case)
  also have "\<dots> = Inr \<lparr>seen = seen_append (map numbered_sig [0..<2000]) (event_sig repr_integral ping_event),
               inv = [],
               printed = (ping_event # map numbered_event [0..<2000]) @ [ping_event], saved = []\<rparr>"
    by (simp only: single again)
  finally show ?thesis by simp
qed

text \<open>
  C6, amended. Two events with the same direction, the same name and arguments of the
  same content, whatever the order of the keys of their objects, have the same
  signature. An event with the signature of an earlier one is skipped, and changes
  nothing, when it directly follows that event, and also when that event was handled
  and fewer than 2000 events came between the two. The filter holds no more than 2000
  signatures: once 2000 events with other signatures have been handled and not skipped
  since the earlier event, its signature has left the filter, and the later event is
  handled again.
\<close>

theorem equal_events_deduplicated:
  "(wf_json (JArr args) \<and> wf_json (JArr args') \<and> same_content (JArr args) (JArr args') \<longrightarrow>
      event_sig fr (d, n, args) = event_sig fr (d, n, args'))
   \<and> (event_sig fr ev' = event_sig fr ev \<and> handle_event sf si fr st ev = Inr st1 \<longrightarrow>
      handle_event sf si fr st1 ev' = Inr st1)
   \<and> (event_sig fr ev' = event_sig fr ev \<and> \<not> sig_in (event_sig fr ev) (seen st) \<and>
      handle_event sf si fr st ev = Inr st1 \<and> handle_events sf si fr st1 evs = Inr st2 \<and>
      length evs < seen_maxlen \<longrightarrow>
      handle_event sf si fr st2 ev' = Inr st2)
   \<and> (length (seen s0) \<le> seen_maxlen \<and> event_sig fr e2 = event_sig fr e1 \<and>
      handle_event sf si fr s0 e1 = Inr s1 \<and> handle_events sf si fr s1 es = Inr s2 \<and>
      (\<forall>e \<in> set es. \<not> sig_eq (event_sig fr e1) (event_sig fr e)) \<and>
      length (printed s1) + seen_maxlen \<le> length (printed s2) \<and>
      handle_event sf si fr s2 e2 = Inr s3 \<longrightarrow>
      \<not> sig_in (event_sig fr e2) (seen s2) \<and> printed s3 = printed s2 @ [e2] \<and>
      seen s3 = seen_append (seen s2) (event_sig fr e2))"
proof (intro conjI impI)
  assume "wf_json (JArr args) \<and> wf_json (JArr args') \<and> same_content (JArr args) (JArr args')"
  then show "event_sig fr (d, n, args) = event_sig fr (d, n, args')"
    using event_sig_same_content by blast
next
  assume a: "event_sig fr ev' = event_sig fr ev \<and> handle_event sf si fr st ev = Inr st1"
  then have "sig_in (event_sig fr ev') (seen st1)"
    using handle_event_remembers [of sf si fr st ev st1] by simp
  then show "handle_event sf si fr st1 ev' = Inr st1" by (rule handle_event_skip)
next
  assume "event_sig fr ev' = event_sig fr ev \<and> \<not> sig_in (event_sig fr ev) (seen st) \<and>
      handle_event sf si fr st ev = Inr st1 \<and> handle_events sf si fr st1 evs = Inr st2 \<and>
      length evs < seen_maxlen"
  then show "handle_event sf si fr st2 ev' = Inr st2"
    using skipped_within_window by blast
next
  assume a: "length (seen s0) \<le> seen_maxlen \<and> event_sig fr e2 = event_sig fr e1 \<and>
      handle_event sf si fr s0 e1 = Inr s1 \<and> handle_events sf si fr s1 es = Inr s2 \<and>
      (\<forall>e \<in> set es. \<not> sig_eq (event_sig fr e1) (event_sig fr e)) \<and>
      length (printed s1) + seen_maxlen \<le> length (printed s2) \<and>
      handle_event sf si fr s2 e2 = Inr s3"
  then have "length (seen s1) \<le> seen_maxlen"
    using handle_event_seen_length by blast
  with a have gone: "\<not> sig_in (event_sig fr e2) (seen s2)"
    using evicted_after_window [of s1 sf si fr es s2 "event_sig fr e1"] by simp
  from a have "handle_event sf si fr s2 e2 = Inr s3" by simp
  from handle_event_cases [OF this] gone
  have "printed s3 = printed s2 @ [e2] \<and> seen s3 = seen_append (seen s2) (event_sig fr e2)"
    by simp
  with gone show "\<not> sig_in (event_sig fr e2) (seen s2)"
    and "printed s3 = printed s2 @ [e2]"
    and "seen s3 = seen_append (seen s2) (event_sig fr e2)"
    by simp_all
qed

text \<open>
  The instance: \<^verbatim>\<open>42["priceUpdate",{"x":1,"y":2}]\<close>, then \<^verbatim>\<open>42["ping"]\<close>, then the
  first event with the keys of its object in the other order, which is skipped; and
  \<^verbatim>\<open>42["ping"]\<close>, then \<^verbatim>\<open>42[0]\<close> to \<^verbatim>\<open>42[1999]\<close>, then \<^verbatim>\<open>42["ping"]\<close>,
  which is handled again.
\<close>

theorem equal_events_deduplicated_witness:
  \<open>wf_json (JArr [JObj [(''x'', JInt 1), (''y'', JInt 2)]])
   \<and> wf_json (JArr [JObj [(''y'', JInt 2), (''x'', JInt 1)]])
   \<and> same_content (JArr [JObj [(''x'', JInt 1), (''y'', JInt 2)]])
        (JArr [JObj [(''y'', JInt 2), (''x'', JInt 1)]])
   \<and> event_sig repr_integral (''in'', JStr ''priceUpdate'', [JObj [(''x'', JInt 1), (''y'', JInt 2)]])
       = (''in'', JStr ''priceUpdate'', ''[{"x": 1, "y": 2}]'')
   \<and> event_sig repr_integral (''in'', JStr ''priceUpdate'', [JObj [(''y'', JInt 2), (''x'', JInt 1)]])
       = (''in'', JStr ''priceUpdate'', ''[{"x": 1, "y": 2}]'')
   \<and> \<not> sig_in (''in'', JStr ''priceUpdate'', ''[{"x": 1, "y": 2}]'') (seen initial_state)
   \<and> handle_event read_float read_int repr_integral initial_state
        (''in'', JStr ''priceUpdate'', [JObj [(''x'', JInt 1), (''y'', JInt 2)]])
       = Inr \<lparr>seen = [(''in'', JStr ''priceUpdate'', ''[{"x": 1, "y": 2}]'')], inv = [],
              printed = [(''in'', JStr ''priceUpdate'', [JObj [(''x'', JInt 1), (''y'', JInt 2)]])],
              saved = []\<rparr>
   \<and> handle_events read_float read_int repr_integral
        \<lparr>seen = [(''in'', JStr ''priceUpdate'', ''[{"x": 1, "y": 2}]'')], inv = [],
          printed = [(''in'', JStr ''priceUpdate'', [JObj [(''x'', JInt 1), (''y'', JInt 2)]])],
          saved = []\<rparr>
        [ping_event]
       = Inr \<lparr>seen = [(''in'', JStr ''priceUpdate'', ''[{"x": 1, "y": 2}]''),
                      (''in'', JStr ''ping'', ''[]'')], inv = [],
              printed = [(''in'', JStr ''priceUpdate'', [JObj [(''x'', JInt 1), (''y'', JInt 2)]]),
                         ping_event],
              saved = []\<rparr>
   \<and> length [ping_event] < seen_maxlen
   \<and> handle_event read_float read_int repr_integral
        \<lparr>seen = [(''in'', JStr ''priceUpdate'', ''[{"x": 1, "y": 2}]''),
                 (''in'', JStr ''ping'', ''[]'')], inv = [],
          printed = [(''in'', JStr ''priceUpdate'', [JObj [(''x'', JInt 1), (''y'', JInt 2)]]),
                     ping_event],
          saved = []\<rparr>
        (''in'', JStr ''priceUpdate'', [JObj [(''y'', JInt 2), (''x'', JInt 1)]])
       = Inr \<lparr>seen = [(''in'', JStr ''priceUpdate'', ''[{"x": 1, "y": 2}]''),
                      (''in'', JStr ''ping'', ''[]'')], inv = [],
              printed = [(''in'', JStr ''priceUpdate'', [JObj [(''x'', JInt 1), (''y'', JInt 2)]]),
                         ping_event],
              saved = []\<rparr>
   \<and> length (seen initial_state) \<le> seen_maxlen
   \<and> handle_event read_float read_int repr_integral initial_state ping_event
       = Inr \<lparr>seen = [(''in'', JStr ''ping'', ''[]'')], inv = [], printed = [ping_event],
              saved = []\<rparr>
   \<and> handle_events read_float read_int repr_integral
        \<lparr>seen = [(''in'', JStr ''ping'', ''[]'')], inv = [], printed = [ping_event], saved = []\<rparr>
        (map numbered_event [0..<2000])
       = Inr \<lparr>seen = map numbered_sig [0..<2000], inv = [],
              printed = ping_event # map numbered_event [0..<2000], saved = []\<rparr>
   \<and> \<not> sig_eq (event_sig repr_integral ping_event) (event_sig repr_integral (numbered_event 0))
   \<and> \<not> sig_eq (event_sig repr_integral ping_event) (event_sig repr_integral (numbered_event 1999))
   \<and> length [ping_event] + seen_maxlen \<le> length (ping_event # map numbered_event [0..<2000])
   \<and> handle_event read_float read_int repr_integral
        \<lparr>seen = map numbered_sig [0..<2000], inv = [],
          printed = ping_event # map numbered_event [0..<2000], saved = []\<rparr> ping_event
       = Inr \<lparr>seen = seen_append (map numbered_sig [0..<2000]) (event_sig repr_integral ping_event),
              inv = [],
              printed = (ping_event # map numbered_event [0..<2000]) @ [ping_event], saved = []\<rparr>
   \<and> \<not> sig_in (event_sig repr_integral ping_event) (map numbered_sig [0..<2000])\<close>
proof -
  let ?ev = "(''in'', JStr ''priceUpdate'', [JObj [(''x'', JInt 1), (''y'', JInt 2)]])"
  let ?ev' = "(''in'', JStr ''priceUpdate'', [JObj [(''y'', JInt 2), (''x'', JInt 1)]])"
  let ?sg = \<open>(''in'', JStr ''priceUpdate'', ''[{"x": 1, "y": 2}]'')\<close>
  let ?st1 = "\<lparr>seen = [?sg], inv = [], printed = [?ev], saved = []\<rparr>"
  let ?st2 = "\<lparr>seen = [?sg, (''in'', JStr ''ping'', ''[]'')], inv = [], printed = [?ev, ping_event],
               saved = []\<rparr>"
  have wf: "wf_json (JArr [JObj [(''x'', JInt 1), (''y'', JInt 2)]])"
    "wf_json (JArr [JObj [(''y'', JInt 2), (''x'', JInt 1)]])"
    by simp_all
  have sc: "same_content (JArr [JObj [(''x'', JInt 1), (''y'', JInt 2)]])
        (JArr [JObj [(''y'', JInt 2), (''x'', JInt 1)]])"
    by simp
  have sg: "event_sig repr_integral ?ev = ?sg" by code_simp
  have fresh: "\<not> sig_in ?sg (seen initial_state)"
    by (simp add: initial_state_def sig_in_def)
  have first: "handle_event read_float read_int repr_integral initial_state ?ev = Inr ?st1"
    by code_simp
  have between: "handle_events read_float read_int repr_integral ?st1 [ping_event] = Inr ?st2"
    by code_simp
  have window: "length [ping_event] < seen_maxlen"
    by (simp add: seen_maxlen_def)
  let ?p1 = "\<lparr>seen = [(''in'', JStr ''ping'', ''[]'')], inv = [], printed = [ping_event],
               saved = []\<rparr>"
  let ?p2 = "\<lparr>seen = map numbered_sig [0..<2000], inv = [],
               printed = ping_event # map numbered_event [0..<2000], saved = []\<rparr>"
  let ?p3 = "\<lparr>seen = seen_append (map numbered_sig [0..<2000]) (event_sig repr_integral ping_event),
               inv = [],
               printed = (ping_event # map numbered_event [0..<2000]) @ [ping_event], saved = []\<rparr>"
  have bound: "length (seen initial_state) \<le> seen_maxlen"
    by (simp add: initial_state_def)
  have p1: "handle_event read_float read_int repr_integral initial_state ping_event = Inr ?p1"
    by (subst handle_event_plain)
       (simp_all add: ping_event_def event_sig_ping [unfolded ping_event_def] initial_state_def
          sig_in_def seen_append_def deque_append_def seen_maxlen_def)
  have p2: "handle_events read_float read_int repr_integral ?p1 (map numbered_event [0..<2000])
              = Inr ?p2"
    using ping_evicted [of read_float read_int repr_integral] p1
    by (simp add: py_bind_def)
  have others: "\<forall>e \<in> set (map numbered_event [0..<2000]).
          \<not> sig_eq (event_sig repr_integral ping_event) (event_sig repr_integral e)"
    by (auto simp: event_sig_ping event_sig_numbered numbered_sig_def sig_eq_def py_eq_def)
  have many: "length (printed ?p1) + seen_maxlen \<le> length (printed ?p2)"
    by (simp add: seen_maxlen_def)
  note p3 = ping_again [of read_float read_int repr_integral]
  from equal_events_deduplicated [of "[JObj [(''x'', JInt 1), (''y'', JInt 2)]]"
      "[JObj [(''y'', JInt 2), (''x'', JInt 1)]]" repr_integral "''in''" "JStr ''priceUpdate''"
      ?ev' ?ev read_float read_int initial_state ?st1 "[ping_event]" ?st2
      initial_state ping_event ping_event ?p1 "map numbered_event [0..<2000]" ?p2 ?p3]
    bound p1 p2 others many p3
  have gone: "\<not> sig_in (event_sig repr_integral ping_event) (seen ?p2)"
    by simp
  from equal_events_deduplicated [of "[JObj [(''x'', JInt 1), (''y'', JInt 2)]]"
      "[JObj [(''y'', JInt 2), (''x'', JInt 1)]]" repr_integral "''in''" "JStr ''priceUpdate''"
      ?ev' ?ev read_float read_int initial_state ?st1 "[ping_event]" ?st2] wf sc
  have same: "event_sig repr_integral ?ev = event_sig repr_integral ?ev'"
    and skip: "event_sig repr_integral ?ev' = event_sig repr_integral ?ev \<and>
      \<not> sig_in (event_sig repr_integral ?ev) (seen initial_state) \<and>
      handle_event read_float read_int repr_integral initial_state ?ev = Inr ?st1 \<and>
      handle_events read_float read_int repr_integral ?st1 [ping_event] = Inr ?st2 \<and>
      length [ping_event] < seen_maxlen \<longrightarrow>
      handle_event read_float read_int repr_integral ?st2 ?ev' = Inr ?st2"
    by blast+
  from same sg have sg': "event_sig repr_integral ?ev' = ?sg" by simp
  from skip sg sg' fresh first between window
  have "handle_event read_float read_int repr_integral ?st2 ?ev' = Inr ?st2"
    by simp
  moreover from many have "length [ping_event] + seen_maxlen
      \<le> length (ping_event # map numbered_event [0..<2000])" by simp
  moreover from gone have "\<not> sig_in (event_sig repr_integral ping_event) (map numbered_sig [0..<2000])"
    by simp
  moreover from others
  have "\<not> sig_eq (event_sig repr_integral ping_event) (event_sig repr_integral (numbered_event 0))"
    and "\<not> sig_eq (event_sig repr_integral ping_event) (event_sig repr_integral (numbered_event 1999))"
    by simp_all
  ultimately show ?thesis
    using wf sc sg sg' fresh first between window bound p1 p2 p3
    by (intro conjI)
qed

end
